theory Spec2Isabelle
  imports Complex_Main "HOL-Library.Word"
begin

section \<open>Numbers and basic data\<close>

text \<open>
  JavaScript numbers are IEEE doubles. The construction only ever produces finite values
  and the two infinities (\<open>Infinity\<close> marks a meshlet without parent, \<open>-Infinity\<close> is
  \<open>Math.max()\<close> of no arguments), so a number is a real or one of the infinities; rounding
  is not modelled. Indices of an \<open>Uint32Array\<close> are 32-bit words.
\<close>

type_synonym u32 = "32 word"

datatype number = NegInfinity | Fin real | Infinity

fun num_le :: "number \<Rightarrow> number \<Rightarrow> bool" where
  "num_le NegInfinity _ = True"
| "num_le (Fin a) NegInfinity = False"
| "num_le (Fin a) (Fin b) = (a \<le> b)"
| "num_le (Fin a) Infinity = True"
| "num_le Infinity Infinity = True"
| "num_le Infinity _ = False"

definition num_max :: "number \<Rightarrow> number \<Rightarrow> number" where
  "num_max a b = (if num_le a b then b else a)"

text \<open>\<open>Math.max(...xs)\<close>: the largest argument, \<open>-Infinity\<close> when there is none.\<close>

definition Math_max :: "number list \<Rightarrow> number" where
  "Math_max xs = foldr num_max xs NegInfinity"

text \<open>\<open>a + b\<close> for a finite \<open>a\<close>.\<close>

fun add_fin :: "real \<Rightarrow> number \<Rightarrow> number" where
  "add_fin a NegInfinity = NegInfinity"
| "add_fin a (Fin b) = Fin (a + b)"
| "add_fin a Infinity = Infinity"

record BoundingSphere =
  center :: "real \<times> real \<times> real"
  radius :: real

type_synonym Edge = "nat \<times> nat"

section \<open>Meshlets under construction\<close>

text \<open>
  \<open>MeshletWIP\<close> objects are shared by reference between \<open>allMeshlets\<close>,
  \<open>currentMeshlets\<close> and the \<open>createdFrom\<close> arrays, and they are mutated when a parent
  is built. The store is the array \<open>allMeshlets\<close> itself: a reference to a meshlet is its
  position there (every meshlet is pushed at creation and nothing is ever removed).
\<close>

record MeshletWIP =
  id' :: nat
  createdFrom :: "nat list"
  lodLevel :: nat
  indices :: "u32 list"
  boundaryEdges :: "Edge list"
  maxSiblingsError :: number
  sharedSiblingsBounds :: BoundingSphere
  parentError :: number
  parentBounds :: "BoundingSphere option"

definition isWIP_Root :: "MeshletWIP \<Rightarrow> bool" where
  "isWIP_Root m = (parentBounds m = None)"

record SimplifiedMesh =
  indexBuffer :: "u32 list"
  error :: real
  errorScale :: real

record SimplifyOpts =
  targetIndexCount :: nat
  targetError :: real
  lockBorders :: bool

text \<open>
  The collaborators of the construction that are not part of it: bounds calculation,
  the clusterer (\<open>createMeshlets\<close> with the configured meshlet sizes, followed by
  \<open>splitIndicesPerMeshlets\<close>), the boundary edges of an index buffer
  (\<open>findBoundaryEdges (listAllEdges indices)\<close>), the adjacency strategy selected by the
  configuration, the graph partitioner, the target index count and the simplifier. The
  mesh is fixed during one construction, so the collaborators that take it are given
  without it. They are functions: a collaborator that does not return is not modelled.
\<close>

record ('adj) env =
  calculateBounds :: "u32 list \<Rightarrow> BoundingSphere"
  splitIndices :: "u32 list \<Rightarrow> u32 list list"
  findBoundaryEdges :: "u32 list \<Rightarrow> Edge list"
  findAdjacentMeshlets :: "Edge list list \<Rightarrow> 'adj"
  partitionGraph :: "'adj \<Rightarrow> nat \<Rightarrow> nat list list"
  calculateTargetIndexCount :: "nat \<Rightarrow> nat \<Rightarrow> nat"
  simplifyMesh :: "u32 list \<Rightarrow> SimplifyOpts \<Rightarrow> SimplifiedMesh"

datatype warning = CouldNotSimplify (warn_lodLevel: nat) (warn_trianglesBefore: real) (warn_trianglesAfter: real)

datatype error = SimplificationError (err_lodLevel: nat) (err_vertexCount: nat) | TypeError

record state =
  NEXT_MESHLET_ID :: nat
  allMeshlets :: "MeshletWIP list"
  warnings :: "warning list"

definition MAX_LODS :: nat where
  "MAX_LODS = 20"

definition SIMPLIFICATION_FACTOR_REQ :: real where
  "SIMPLIFICATION_FACTOR_REQ = 0.97"

definition DECIMATE_FACTOR :: nat where
  "DECIMATE_FACTOR = 2"

definition TARGET_SIMPLIFY_ERROR :: real where
  "TARGET_SIMPLIFY_ERROR = 0.05"

definition VERTS_IN_TRIANGLE :: nat where
  "VERTS_IN_TRIANGLE = 3"

definition getTriangleCount :: "u32 list \<Rightarrow> real" where
  "getTriangleCount indexArray = real (length indexArray) / real VERTS_IN_TRIANGLE"

text \<open>
  \<open>trianglesAfter / trianglesBefore > SIMPLIFICATION_FACTOR_REQ\<close>. Both counts are
  non-negative. Division by zero is written out: \<open>x / 0\<close> is \<open>Infinity\<close> for a positive
  \<open>x\<close> (greater than the requirement) and \<open>0 / 0\<close> is \<open>NaN\<close>, which compares false.
\<close>

definition simplificationFactorExceeds :: "real \<Rightarrow> real \<Rightarrow> bool" where
  "simplificationFactorExceeds trianglesAfter trianglesBefore =
     (if trianglesBefore = 0 then 0 < trianglesAfter
      else trianglesAfter / trianglesBefore > SIMPLIFICATION_FACTOR_REQ)"

text \<open>
  \<open>createMeshletWip\<close>: the new meshlet takes the current value of the global counter as
  its id, the counter is incremented, and the meshlet is pushed to \<open>allMeshlets\<close>. The
  result is the reference to the new meshlet. (Progress reporting has no effect on the
  construction and is left out.)
\<close>

definition createMeshletWip ::
  "'adj env \<Rightarrow> nat \<Rightarrow> u32 list \<Rightarrow> number \<Rightarrow> nat list \<Rightarrow> BoundingSphere \<Rightarrow> state \<Rightarrow> nat \<times> state" where
  "createMeshletWip env lodLevel' indices' simplificationError createdFrom' sharedSiblingsBounds' st =
     (let m = \<lparr> id' = NEXT_MESHLET_ID st,
                createdFrom = createdFrom',
                lodLevel = lodLevel',
                indices = indices',
                boundaryEdges = findBoundaryEdges env indices',
                maxSiblingsError = simplificationError,
                sharedSiblingsBounds = sharedSiblingsBounds',
                parentError = Infinity,
                parentBounds = None \<rparr>
      in (length (allMeshlets st),
          st\<lparr> NEXT_MESHLET_ID := NEXT_MESHLET_ID st + 1,
              allMeshlets := allMeshlets st @ [m] \<rparr>))"

text \<open>The \<open>map\<close> of \<open>splitIntoMeshlets\<close>: one \<open>createMeshletWip\<close> per index list, in order.\<close>

fun createMeshletWips ::
  "'adj env \<Rightarrow> nat \<Rightarrow> u32 list list \<Rightarrow> number \<Rightarrow> nat list \<Rightarrow> BoundingSphere \<Rightarrow> state \<Rightarrow> nat list \<times> state" where
  "createMeshletWips env lodLevel' [] simplificationError createdFrom' bounds st = ([], st)"
| "createMeshletWips env lodLevel' (is # iss) simplificationError createdFrom' bounds st =
     (let (m, st1) = createMeshletWip env lodLevel' is simplificationError createdFrom' bounds st;
          (ms, st2) = createMeshletWips env lodLevel' iss simplificationError createdFrom' bounds st1
      in (m # ms, st2))"

definition splitIntoMeshlets ::
  "'adj env \<Rightarrow> nat \<Rightarrow> u32 list \<Rightarrow> number \<Rightarrow> nat list \<Rightarrow> BoundingSphere \<Rightarrow> state \<Rightarrow> nat list \<times> state" where
  "splitIntoMeshlets env lodLevel' indices' simplificationError createdFrom' sharedSiblingsBounds' st =
     createMeshletWips env lodLevel' (splitIndices env indices') simplificationError createdFrom'
       sharedSiblingsBounds' st"

definition mergeMeshlets :: "MeshletWIP list \<Rightarrow> u32 list" where
  "mergeMeshlets meshletGroup = concat (map indices meshletGroup)"


section \<open>One merge group\<close>

text \<open>
  A group is an array of meshlet references. The local constants of the loop body are
  functions of the collaborators, the store and the group.
\<close>

definition megaMeshlet :: "state \<Rightarrow> nat list \<Rightarrow> u32 list" where
  "megaMeshlet st childMeshletGroup =
     mergeMeshlets (map (\<lambda>c. allMeshlets st ! c) childMeshletGroup)"

definition simplifiedMesh :: "'adj env \<Rightarrow> state \<Rightarrow> nat list \<Rightarrow> SimplifiedMesh" where
  "simplifiedMesh env st childMeshletGroup =
     (let targetIndexCount' =
            calculateTargetIndexCount env (length (megaMeshlet st childMeshletGroup))
              DECIMATE_FACTOR
      in simplifyMesh env (megaMeshlet st childMeshletGroup)
           \<lparr> targetIndexCount = targetIndexCount',
             targetError = TARGET_SIMPLIFY_ERROR,
             lockBorders = True \<rparr>)"

definition trianglesBefore :: "state \<Rightarrow> nat list \<Rightarrow> real" where
  "trianglesBefore st childMeshletGroup = getTriangleCount (megaMeshlet st childMeshletGroup)"

definition trianglesAfter :: "'adj env \<Rightarrow> state \<Rightarrow> nat list \<Rightarrow> real" where
  "trianglesAfter env st childMeshletGroup =
     getTriangleCount (indexBuffer (simplifiedMesh env st childMeshletGroup))"

text \<open>The test \<open>simplificationFactor > SIMPLIFICATION_FACTOR_REQ\<close> of the group.\<close>

definition simplificationUnsuccessful :: "'adj env \<Rightarrow> state \<Rightarrow> nat list \<Rightarrow> bool" where
  "simplificationUnsuccessful env st childMeshletGroup =
     simplificationFactorExceeds (trianglesAfter env st childMeshletGroup)
       (trianglesBefore st childMeshletGroup)"

definition errorNow :: "'adj env \<Rightarrow> state \<Rightarrow> nat list \<Rightarrow> real" where
  "errorNow env st childMeshletGroup =
     error (simplifiedMesh env st childMeshletGroup)
       * errorScale (simplifiedMesh env st childMeshletGroup)"

definition childrenError :: "state \<Rightarrow> nat list \<Rightarrow> number" where
  "childrenError st childMeshletGroup =
     Math_max (map (\<lambda>c. maxSiblingsError (allMeshlets st ! c)) childMeshletGroup)"

definition totalError :: "'adj env \<Rightarrow> state \<Rightarrow> nat list \<Rightarrow> number" where
  "totalError env st childMeshletGroup =
     add_fin (errorNow env st childMeshletGroup) (childrenError st childMeshletGroup)"

definition bounds :: "'adj env \<Rightarrow> state \<Rightarrow> nat list \<Rightarrow> BoundingSphere" where
  "bounds env st childMeshletGroup = calculateBounds env (megaMeshlet st childMeshletGroup)"

text \<open>The \<open>forEach\<close> that hands the parent data to every child of the group, in order.\<close>

fun setParents :: "nat list \<Rightarrow> number \<Rightarrow> BoundingSphere \<Rightarrow> MeshletWIP list \<Rightarrow> MeshletWIP list" where
  "setParents [] e b ms = ms"
| "setParents (c # cs) e b ms =
     setParents cs e b (ms[c := (ms ! c)\<lparr> parentError := e, parentBounds := Some b \<rparr>])"

text \<open>
  One iteration of the loop over the groups. An entry of a group is \<open>None\<close> when the
  partitioner named an index outside \<open>currentMeshlets\<close> (the array read gives
  \<open>undefined\<close>); \<open>mergeMeshlets\<close> then throws a \<open>TypeError\<close>. The accumulator is the store
  together with \<open>newlyCreatedMeshlets\<close>.
\<close>

definition processGroup ::
  "'adj env \<Rightarrow> nat \<Rightarrow> nat \<Rightarrow> nat option list \<Rightarrow> state \<times> nat list \<Rightarrow> error + state \<times> nat list" where
  "processGroup env lodLevel' partitionedLength childGroup acc =
     (case those childGroup of
        None \<Rightarrow> Inl TypeError
      | Some childMeshletGroup \<Rightarrow>
          (let (st, newlyCreatedMeshlets) = acc in
           if simplificationUnsuccessful env st childMeshletGroup then
             Inr (st\<lparr> warnings := warnings st @
                        [CouldNotSimplify lodLevel' (trianglesBefore st childMeshletGroup)
                           (trianglesAfter env st childMeshletGroup)] \<rparr>,
                  newlyCreatedMeshlets)
           else
             (let (newMeshlets, st1) =
                    (if partitionedLength = 1 then
                       (let (rootMeshlet, st1) =
                              createMeshletWip env lodLevel'
                                (indexBuffer (simplifiedMesh env st childMeshletGroup))
                                (totalError env st childMeshletGroup) childMeshletGroup
                                (bounds env st childMeshletGroup) st
                        in ([rootMeshlet], st1))
                     else
                       splitIntoMeshlets env lodLevel'
                         (indexBuffer (simplifiedMesh env st childMeshletGroup))
                         (totalError env st childMeshletGroup) childMeshletGroup
                         (bounds env st childMeshletGroup) st);
                  st2 = st1\<lparr> allMeshlets :=
                          setParents childMeshletGroup (totalError env st childMeshletGroup)
                            (bounds env st childMeshletGroup) (allMeshlets st1) \<rparr>
              in Inr (st2, newlyCreatedMeshlets @ newMeshlets))))"

fun processGroups ::
  "'adj env \<Rightarrow> nat \<Rightarrow> nat \<Rightarrow> nat option list list \<Rightarrow> state \<times> nat list \<Rightarrow> error + state \<times> nat list" where
  "processGroups env lodLevel' partitionedLength [] acc = Inr acc"
| "processGroups env lodLevel' partitionedLength (childGroup # groups) acc =
     (case processGroup env lodLevel' partitionedLength childGroup acc of
        Inl e \<Rightarrow> Inl e
      | Inr acc' \<Rightarrow> processGroups env lodLevel' partitionedLength groups acc')"

section \<open>The loop over the LOD levels\<close>

definition GROUP_SIZE :: nat where
  "GROUP_SIZE = 4"

text \<open>\<open>Math.ceil(n / GROUP_SIZE)\<close>.\<close>

definition nparts :: "nat \<Rightarrow> nat" where
  "nparts n = (n + GROUP_SIZE - 1) div GROUP_SIZE"

definition partitioned :: "'adj env \<Rightarrow> state \<Rightarrow> nat list \<Rightarrow> nat option list list" where
  "partitioned env st currentMeshlets =
     (if length currentMeshlets > GROUP_SIZE then
        (let adjacency = findAdjacentMeshlets env
                           (map (\<lambda>m. boundaryEdges (allMeshlets st ! m)) currentMeshlets);
             meshletIdxPerPart = partitionGraph env adjacency (nparts (length currentMeshlets))
         in map (\<lambda>idxs. map (\<lambda>i. if i < length currentMeshlets then Some (currentMeshlets ! i)
                                   else None) idxs)
              meshletIdxPerPart)
      else [map Some currentMeshlets])"

text \<open>
  The loop over the levels. The result of a construction that returns is the final level
  counter, the final \<open>currentMeshlets\<close> and the final store.
\<close>

function lodLoop ::
  "'adj env \<Rightarrow> nat \<Rightarrow> nat \<Rightarrow> nat list \<Rightarrow> state \<Rightarrow> error + nat \<times> nat list \<times> state" where
  "lodLoop env vertexCount lodLevel' currentMeshlets st =
     (if lodLevel' < MAX_LODS + 1 then
        (if length currentMeshlets < 2 then Inr (lodLevel', currentMeshlets, st)
         else
           (case processGroups env lodLevel'
                   (length (partitioned env st currentMeshlets))
                   (partitioned env st currentMeshlets) (st, []) of
              Inl e \<Rightarrow> Inl e
            | Inr (st', newlyCreatedMeshlets) \<Rightarrow>
                if lodLevel' = 1 \<and> length newlyCreatedMeshlets = 0 then
                  Inl (SimplificationError (lodLevel' - 1) vertexCount)
                else lodLoop env vertexCount (lodLevel' + 1) newlyCreatedMeshlets st'))
      else Inr (lodLevel', currentMeshlets, st))"
  by pat_completeness auto
termination
  by (relation "measure (\<lambda>(env, vertexCount, lodLevel', currentMeshlets, st). MAX_LODS + 1 - lodLevel')") auto

declare lodLoop.simps [simp del]

text \<open>
  What remains of the construction once the loop over the groups of level \<open>lodLevel\<close> has
  reached \<open>groups\<close>: the remaining groups, the check of level 1, and the next levels.
\<close>

definition finishLevel ::
  "'adj env \<Rightarrow> nat \<Rightarrow> nat \<Rightarrow> nat \<Rightarrow> nat option list list \<Rightarrow> state \<times> nat list \<Rightarrow>
   error + nat \<times> nat list \<times> state" where
  "finishLevel env vertexCount lodLevel' partitionedLength groups acc =
     (case processGroups env lodLevel' partitionedLength groups acc of
        Inl e \<Rightarrow> Inl e
      | Inr (st', newlyCreatedMeshlets) \<Rightarrow>
          if lodLevel' = 1 \<and> length newlyCreatedMeshlets = 0 then
            Inl (SimplificationError (lodLevel' - 1) vertexCount)
          else lodLoop env vertexCount (lodLevel' + 1) newlyCreatedMeshlets st')"

section \<open>createNaniteMeshlets\<close>

text \<open>
  The global counter \<open>NEXT_MESHLET_ID\<close> lives outside the call: its value before the call
  is an argument. The call resets it, creates the bottom meshlets at level 0 with error 0
  and runs the loop from level 1.
\<close>

definition construction ::
  "'adj env \<Rightarrow> nat \<Rightarrow> u32 list \<Rightarrow> nat \<Rightarrow> error + nat \<times> nat list \<times> state" where
  "construction env vertexCount indexArray nextMeshletIdBefore =
     (let st0 = \<lparr> NEXT_MESHLET_ID = nextMeshletIdBefore, allMeshlets = [], warnings = [] \<rparr>;
          st1 = st0\<lparr> NEXT_MESHLET_ID := 0 \<rparr>;
          mockBounds = calculateBounds env indexArray;
          (bottomMeshlets, st2) = splitIntoMeshlets env 0 indexArray (Fin 0) [] mockBounds st1
      in lodLoop env vertexCount 1 bottomMeshlets st2)"

definition createNaniteMeshlets ::
  "'adj env \<Rightarrow> nat \<Rightarrow> u32 list \<Rightarrow> nat \<Rightarrow> error + MeshletWIP list" where
  "createNaniteMeshlets env vertexCount indexArray nextMeshletIdBefore =
     (case construction env vertexCount indexArray nextMeshletIdBefore of
        Inl e \<Rightarrow> Inl e
      | Inr (lodLevel', currentMeshlets, st) \<Rightarrow> Inr (allMeshlets st))"

section \<open>The drawn-meshlets buffer\<close>

definition BYTES_U32 :: nat where
  "BYTES_U32 = 4"

definition BYTES_UVEC2 :: nat where
  "BYTES_UVEC2 = BYTES_U32 * 2"

text \<open>
  \<open>WEBGPU_MINIMAL_BUFFER_SIZE\<close> is a constant of another module: it is the first argument
  of the definitions that use it.
\<close>

definition BYTES_DRAWN_MESHLETS_PARAMS :: "nat \<Rightarrow> nat" where
  "BYTES_DRAWN_MESHLETS_PARAMS WEBGPU_MINIMAL_BUFFER_SIZE =
     max WEBGPU_MINIMAL_BUFFER_SIZE (4 * BYTES_U32)"

definition BYTES_DRAWN_MESHLETS_SW_PARAMS :: "nat \<Rightarrow> nat" where
  "BYTES_DRAWN_MESHLETS_SW_PARAMS WEBGPU_MINIMAL_BUFFER_SIZE =
     max WEBGPU_MINIMAL_BUFFER_SIZE (4 * BYTES_U32)"

text \<open>
  Modelled from the spec: the constant \<open>BOTTOM_LEVEL_NODE\<close> of \<open>naniteObject.ts\<close> is
  missing; the LOD level of a leaf is 0.
\<close>

definition BOTTOM_LEVEL_NODE :: nat where
  "BOTTOM_LEVEL_NODE = 0"

record GPUBuffer =
  label :: string
  size' :: nat

definition createDrawnMeshletsBuffer ::
  "nat \<Rightarrow> string \<Rightarrow> MeshletWIP list \<Rightarrow> nat \<Rightarrow> GPUBuffer" where
  "createDrawnMeshletsBuffer WEBGPU_MINIMAL_BUFFER_SIZE name allWIPMeshlets instanceCount =
     (let bottomMeshletCount =
            length (filter (\<lambda>m. lodLevel m = BOTTOM_LEVEL_NODE) allWIPMeshlets);
          listSize = bottomMeshletCount * instanceCount * BYTES_UVEC2
      in \<lparr> label = name @ ''-nanite-drawn-meshlets'',
           size' = BYTES_DRAWN_MESHLETS_PARAMS WEBGPU_MINIMAL_BUFFER_SIZE
                  + BYTES_DRAWN_MESHLETS_SW_PARAMS WEBGPU_MINIMAL_BUFFER_SIZE + listSize \<rparr>)"

text \<open>
  The list \<open>_drawnMeshletsList\<close> of the shaders: a runtime-sized array of \<open>vec2<u32>\<close>. An
  access outside the array is written out: such a write is not performed and such a read
  gives the zero value. The helpers \<open>_storeMeshletHardwareDraw\<close>, \<open>_storeMeshletSoftwareDraw\<close>,
  \<open>_getMeshletHardwareDraw\<close> and \<open>_getMeshletSoftwareDraw\<close> take the list as an argument (the
  stores return the new list) and are named without the underscore.
\<close>

type_synonym vec2u = "u32 \<times> u32"

definition arrayLength :: "vec2u list \<Rightarrow> u32" where
  "arrayLength lst = of_nat (length lst)"

definition arrayStore :: "vec2u list \<Rightarrow> u32 \<Rightarrow> vec2u \<Rightarrow> vec2u list" where
  "arrayStore lst i v = (if unat i < length lst then lst[unat i := v] else lst)"

definition arrayLoad :: "vec2u list \<Rightarrow> u32 \<Rightarrow> vec2u" where
  "arrayLoad lst i = (if unat i < length lst then lst ! unat i else (0, 0))"

text \<open>The slot \<open>idx2\<close> of the software list: \<open>len - 1u - idx\<close> in 32-bit arithmetic.\<close>

definition softwareSlot :: "vec2u list \<Rightarrow> u32 \<Rightarrow> u32" where
  "softwareSlot lst idx = (let len = arrayLength lst; idx2 = len - 1 - idx in idx2)"

definition storeMeshletHardwareDraw :: "vec2u list \<Rightarrow> u32 \<Rightarrow> u32 \<Rightarrow> u32 \<Rightarrow> vec2u list" where
  "storeMeshletHardwareDraw lst idx tfxIdx meshletIdx = arrayStore lst idx (tfxIdx, meshletIdx)"

definition storeMeshletSoftwareDraw :: "vec2u list \<Rightarrow> u32 \<Rightarrow> u32 \<Rightarrow> u32 \<Rightarrow> vec2u list" where
  "storeMeshletSoftwareDraw lst idx tfxIdx meshletIdx =
     arrayStore lst (softwareSlot lst idx) (tfxIdx, meshletIdx)"

definition getMeshletHardwareDraw :: "vec2u list \<Rightarrow> u32 \<Rightarrow> vec2u" where
  "getMeshletHardwareDraw lst idx = arrayLoad lst idx"

definition getMeshletSoftwareDraw :: "vec2u list \<Rightarrow> u32 \<Rightarrow> vec2u" where
  "getMeshletSoftwareDraw lst idx = arrayLoad lst (softwareSlot lst idx)"

section \<open>Occlusion culling\<close>

text \<open>
  The shader computes in 32-bit floats; they are idealised as reals, so where the shader
  would get an infinity or a NaN (a division by zero, the root of a negative number) the
  functions below give some real number. Vectors are tuples, a matrix is the tuple of its
  columns.
\<close>

type_synonym vec4f = "real \<times> real \<times> real \<times> real"
type_synonym mat4x4f = "vec4f \<times> vec4f \<times> vec4f \<times> vec4f"

definition vec4_add :: "vec4f \<Rightarrow> vec4f \<Rightarrow> vec4f" where
  "vec4_add u v =
     (case u of (a, b, c, d) \<Rightarrow> case v of (a', b', c', d') \<Rightarrow> (a + a', b + b', c + c', d + d'))"

definition vec4_scale :: "real \<Rightarrow> vec4f \<Rightarrow> vec4f" where
  "vec4_scale k v = (case v of (a, b, c, d) \<Rightarrow> (k * a, k * b, k * c, k * d))"

definition mat_vec :: "mat4x4f \<Rightarrow> vec4f \<Rightarrow> vec4f" where
  "mat_vec m v =
     (case m of (c0, c1, c2, c3) \<Rightarrow> case v of (x, y, z, w) \<Rightarrow>
        vec4_add (vec4_add (vec4_scale x c0) (vec4_scale y c1))
                 (vec4_add (vec4_scale z c2) (vec4_scale w c3)))"

definition mat_mat :: "mat4x4f \<Rightarrow> mat4x4f \<Rightarrow> mat4x4f" where
  "mat_mat a b =
     (case b of (c0, c1, c2, c3) \<Rightarrow> (mat_vec a c0, mat_vec a c1, mat_vec a c2, mat_vec a c3))"

record Uniforms =
  viewport :: vec4f
  viewMatrix :: mat4x4f
  projMatrix :: mat4x4f
  useOcclusionCulling :: bool

record NaniteMeshletTreeNode =
  ownBoundingSphere :: vec4f

text \<open>
  The depth pyramid: its number of mip levels and the value a sample at a point and a
  level gives.
\<close>

record DepthPyramid =
  mipLevelCount :: nat
  textureSampleLevel :: "real \<times> real \<Rightarrow> real \<Rightarrow> real"

definition CAMERA_CFG_near :: real where
  "CAMERA_CFG_near = 0.01"

text \<open>
  Modelled from the spec: the snippet \<open>CLAMP_TO_MIP_LEVELS\<close> is missing; the level is
  clamped to the levels of the pyramid.
\<close>

definition clampToMipLevels :: "int \<Rightarrow> DepthPyramid \<Rightarrow> int" where
  "clampToMipLevels level tex = max 0 (min level (int (mipLevelCount tex) - 1))"

definition projectSphereView ::
  "mat4x4f \<Rightarrow> real \<times> real \<times> real \<Rightarrow> real \<Rightarrow> real \<times> real \<Rightarrow> vec4f" where
  "projectSphereView projMat centerViewSpace r viewportSize =
     (case centerViewSpace of (cx0, cy0, cz0) \<Rightarrow>
      let cx = cx0; cy = cy0; cz = - cz0;
          crx = cx * r; cry = cy * r; crz = cz * r;
          czr2 = cz * cz - r * r;
          vx = sqrt (cx * cx + czr2);
          minX = (vx * cx - crz) / (vx * cz + crx);
          maxX = (vx * cx + crz) / (vx * cz - crx);
          vy = sqrt (cy * cy + czr2);
          minY = (vy * cy - crz) / (vy * cz + cry);
          maxY = (vy * cy + crz) / (vy * cz - cry);
          P00 = (case projMat of ((p00, _), _) \<Rightarrow> p00);
          P11 = (case projMat of (_, (_, p11, _), _) \<Rightarrow> p11)
      in (minX * P00 * 0.5 + 0.5, maxY * P11 * (- 0.5) + 0.5,
          maxX * P00 * 0.5 + 0.5, minY * P11 * (- 0.5) + 0.5))"

text \<open>The centre of the meshlet's bounding sphere in view space.\<close>

definition viewSpaceCenter :: "Uniforms \<Rightarrow> mat4x4f \<Rightarrow> NaniteMeshletTreeNode \<Rightarrow> vec4f" where
  "viewSpaceCenter unif modelMat meshlet =
     (case ownBoundingSphere meshlet of (x, y, z, w) \<Rightarrow>
        mat_vec (mat_mat (viewMatrix unif) modelMat) (x, y, z, 1))"

text \<open>
  \<open>i32(ceil(log2(pixelSpan)))\<close>. For a span that is not positive the logarithm is not a
  number of the reals; the conversion then gives the smallest \<open>i32\<close>.
\<close>

definition mipLevelOfSpan :: "real \<Rightarrow> int" where
  "mipLevelOfSpan pixelSpan =
     (if 0 < pixelSpan then \<lceil>log 2 pixelSpan\<rceil> else - 2147483648)"

definition isPassingOcclusionCulling ::
  "Uniforms \<Rightarrow> DepthPyramid \<Rightarrow> mat4x4f \<Rightarrow> NaniteMeshletTreeNode \<Rightarrow> bool" where
  "isPassingOcclusionCulling unif depthPyramidTexture modelMat meshlet =
     (if \<not> useOcclusionCulling unif then True
      else
        (case viewport unif of (viewportX, viewportY, _) \<Rightarrow>
         case viewSpaceCenter unif modelMat meshlet of (centerX, centerY, centerZ, _) \<Rightarrow>
         case ownBoundingSphere meshlet of (_, _, _, r) \<Rightarrow>
           if \<bar>centerZ\<bar> < r + CAMERA_CFG_near then True
           else
             (case projectSphereView (projMatrix unif) (centerX, centerY, centerZ) r
                     (viewportX, viewportY) of
                (aabbX, aabbY, aabbZ, aabbW) \<Rightarrow>
                let pixelSpanW = \<bar>aabbZ - aabbX\<bar> * viewportX;
                    pixelSpanH = \<bar>aabbW - aabbY\<bar> * viewportY;
                    pixelSpan = max pixelSpanW pixelSpanH;
                    mipLevel = mipLevelOfSpan pixelSpan;
                    mipLevel' = clampToMipLevels (mipLevel + 1) depthPyramidTexture;
                    depthFromDepthBuffer =
                      textureSampleLevel depthPyramidTexture (aabbX, aabbY) (real_of_int mipLevel');
                    d = centerZ - r;
                    P22 = (case projMatrix unif of (_, _, (_, _, p22, _), _) \<Rightarrow> p22);
                    P32 = (case projMatrix unif of (_, _, _, (_, _, p32, _)) \<Rightarrow> p32);
                    depthMeshlet = (P22 * d + P32) / (- d)
                in depthMeshlet \<le> depthFromDepthBuffer)))"

section \<open>Adjacency of meshlets\<close>

text \<open>
  The module \<open>edgesUtils.ts\<close> with the two adjacency strategies is missing. The input is the
  boundary edges of every meshlet, an edge being an undirected pair of vertex indices; two
  meshlets are linked with a weight, the number of boundary edges they share.
\<close>

text \<open>
  Modelled from the spec: the result type of \<open>findAdjacentMeshlets\<close> is missing. For every
  meshlet, its neighbours with the weight of the link.
\<close>

type_synonym adjacency = "(nat \<times> nat) list list"

text \<open>
  Modelled from the spec: the comparison of two edges is missing. An edge is an undirected
  pair of vertex indices.
\<close>

definition isSameEdge :: "Edge \<Rightarrow> Edge \<Rightarrow> bool" where
  "isSameEdge e1 e2 \<longleftrightarrow> e1 = e2 \<or> e1 = (snd e2, fst e2)"

text \<open>
  Modelled from the spec: the assembly of the adjacency graph is missing. Two different
  meshlets are linked when their weight is positive; the neighbours are listed in the order
  of their index.
\<close>

definition adjacencyOf :: "(nat \<Rightarrow> nat \<Rightarrow> nat) \<Rightarrow> nat \<Rightarrow> adjacency" where
  "adjacencyOf weight n =
     map (\<lambda>i. filter (\<lambda>jw. 0 < snd jw)
                (map (\<lambda>j. (j, weight i j)) (filter (\<lambda>j. j \<noteq> i) [0 ..< n])))
       [0 ..< n]"

text \<open>
  Modelled from the spec: the weight under pairwise edge comparison is missing. An edge of
  the first meshlet is shared when the second meshlet has the same edge.
\<close>

definition sharedEdges_Iter :: "Edge list \<Rightarrow> Edge list \<Rightarrow> nat" where
  "sharedEdges_Iter es1 es2 = length (filter (\<lambda>e1. \<exists>e2\<in>set es2. isSameEdge e1 e2) es1)"

text \<open>
  Modelled from the spec: \<open>findAdjacentMeshlets_Iter\<close> is missing. The strategy of pairwise
  edge comparison.
\<close>

definition findAdjacentMeshlets_Iter :: "Edge list list \<Rightarrow> adjacency" where
  "findAdjacentMeshlets_Iter meshletBoundaryEdges =
     adjacencyOf (\<lambda>i j. sharedEdges_Iter (meshletBoundaryEdges ! i) (meshletBoundaryEdges ! j))
       (length meshletBoundaryEdges)"

text \<open>
  Modelled from the spec: the hash key of an edge is missing. It does not depend on the
  direction of the edge.
\<close>

definition edgeKey :: "Edge \<Rightarrow> nat \<times> nat" where
  "edgeKey e = (min (fst e) (snd e), max (fst e) (snd e))"

text \<open>
  Modelled from the spec: the construction of the edge map is missing. Every edge of a
  meshlet is entered under its key, with the meshlet.
\<close>

fun addEdges :: "nat \<Rightarrow> Edge list \<Rightarrow> (nat \<times> nat \<rightharpoonup> nat list) \<Rightarrow> (nat \<times> nat \<rightharpoonup> nat list)" where
  "addEdges i [] m = m"
| "addEdges i (e # es) m =
     addEdges i es
       (m(edgeKey e \<mapsto> i # (case m (edgeKey e) of None \<Rightarrow> [] | Some js \<Rightarrow> js)))"

text \<open>
  Modelled from the spec: the construction of the edge map is missing. The edges of all
  meshlets are entered, meshlet by meshlet.
\<close>

fun buildEdgeMap ::
  "nat \<Rightarrow> Edge list list \<Rightarrow> (nat \<times> nat \<rightharpoonup> nat list) \<Rightarrow> (nat \<times> nat \<rightharpoonup> nat list)" where
  "buildEdgeMap i [] m = m"
| "buildEdgeMap i (es # ess) m = buildEdgeMap (Suc i) ess (addEdges i es m)"

text \<open>
  Modelled from the spec: the lookup in the edge map is missing. A meshlet is found under a
  key when one of its edges was entered there.
\<close>

definition hasMeshlet :: "(nat \<times> nat \<rightharpoonup> nat list) \<Rightarrow> nat \<times> nat \<Rightarrow> nat \<Rightarrow> bool" where
  "hasMeshlet m k j = (case m k of None \<Rightarrow> False | Some js \<Rightarrow> j \<in> set js)"

text \<open>
  Modelled from the spec: the weight under hashed edge lookup is missing. An edge of the
  first meshlet is shared when the second meshlet is found under the key of the edge.
\<close>

definition sharedEdges_Map :: "(nat \<times> nat \<rightharpoonup> nat list) \<Rightarrow> Edge list \<Rightarrow> nat \<Rightarrow> nat" where
  "sharedEdges_Map m es1 j = length (filter (\<lambda>e1. hasMeshlet m (edgeKey e1) j) es1)"

text \<open>
  Modelled from the spec: \<open>findAdjacentMeshlets_Map\<close> is missing. The strategy of hashed edge
  lookup.
\<close>

definition findAdjacentMeshlets_Map :: "Edge list list \<Rightarrow> adjacency" where
  "findAdjacentMeshlets_Map meshletBoundaryEdges =
     (let m = buildEdgeMap 0 meshletBoundaryEdges Map.empty
      in adjacencyOf (\<lambda>i j. sharedEdges_Map m (meshletBoundaryEdges ! i) j)
           (length meshletBoundaryEdges))"

text \<open>The strategy the configuration flag \<open>useMapToFindAdjacentEdges\<close> selects.\<close>

definition findAdjacentMeshletsBy :: "bool \<Rightarrow> Edge list list \<Rightarrow> adjacency" where
  "findAdjacentMeshletsBy useMapToFindAdjacentEdges =
     (if useMapToFindAdjacentEdges then findAdjacentMeshlets_Map else findAdjacentMeshlets_Iter)"

section \<open>Inputs for the examples\<close>

text \<open>A clusterer that makes one meshlet of every triangle.\<close>

fun triangles :: "u32 list \<Rightarrow> u32 list list" where
  "triangles (a # b # c # xs) = [a, b, c] # triangles xs"
| "triangles _ = []"

text \<open>
  Collaborators for a strip of five triangles: the partitioner puts the first four
  meshlets in one group and the fifth in another; the simplifier halves a buffer of more
  than one triangle and cannot simplify a single triangle.
\<close>

definition env0 :: "unit env" where
  "env0 = \<lparr> calculateBounds = (\<lambda>_. \<lparr> center = (0, 0, 0), radius = 1 \<rparr>),
            splitIndices = triangles,
            findBoundaryEdges = (\<lambda>_. []),
            findAdjacentMeshlets = (\<lambda>_. ()),
            partitionGraph = (\<lambda>_ _. [[0, 1, 2, 3], [4]]),
            calculateTargetIndexCount = (\<lambda>n factor. n div factor),
            simplifyMesh = (\<lambda>ixs opts.
              \<lparr> indexBuffer = (if length ixs \<le> 3 then ixs else take (targetIndexCount opts) ixs),
                error = 1 / 2, errorScale = 1 \<rparr>) \<rparr>"

definition mesh0 :: "u32 list" where
  "mesh0 = [0, 1, 2, 2, 1, 3, 2, 3, 4, 4, 3, 5, 4, 5, 6]"

text \<open>Collaborators whose simplifier never removes a triangle.\<close>

definition env1 :: "unit env" where
  "env1 = env0\<lparr> simplifyMesh := (\<lambda>ixs opts. \<lparr> indexBuffer = ixs, error = 0, errorScale = 1 \<rparr>) \<rparr>"

definition mesh1 :: "u32 list" where
  "mesh1 = [0, 1, 2, 2, 1, 3]"

definition mesh2 :: "u32 list" where
  "mesh2 = [0, 1, 2, 2, 1, 3, 2, 3, 4]"



text \<open>
  A camera at the origin with identity matrices, a depth pyramid that holds depth 0
  everywhere, and a sphere of radius 1 around a point half a unit in front of the camera.
\<close>

definition identityMat :: mat4x4f where
  "identityMat = ((1, 0, 0, 0), (0, 1, 0, 0), (0, 0, 1, 0), (0, 0, 0, 1))"

definition unif0 :: Uniforms where
  "unif0 = \<lparr> viewport = (800, 600, 0, 0), viewMatrix = identityMat,
              projMatrix = identityMat, useOcclusionCulling = True \<rparr>"

definition pyramid0 :: DepthPyramid where
  "pyramid0 = \<lparr> mipLevelCount = 1, textureSampleLevel = (\<lambda>_ _. 0) \<rparr>"

definition meshletNear :: NaniteMeshletTreeNode where
  "meshletNear = \<lparr> ownBoundingSphere = (0, 0, - 1 / 2, 1) \<rparr>"

section \<open>Auxiliary notions\<close>

text \<open>The parent data of a meshlet, cleared: what is left are the fields fixed at creation.\<close>

definition own :: "MeshletWIP \<Rightarrow> MeshletWIP" where
  "own m = m\<lparr> parentError := Infinity, parentBounds := None \<rparr>"

text \<open>The record that \<open>createMeshletWip\<close> builds when the counter is \<open>n\<close>.\<close>

definition newMeshlet ::
  "'adj env \<Rightarrow> nat \<Rightarrow> number \<Rightarrow> nat list \<Rightarrow> BoundingSphere \<Rightarrow> nat \<Rightarrow> u32 list \<Rightarrow> MeshletWIP" where
  "newMeshlet env l e cf b n is =
     \<lparr> id' = n, createdFrom = cf, lodLevel = l, indices = is,
       boundaryEdges = findBoundaryEdges env is, maxSiblingsError = e,
       sharedSiblingsBounds = b, parentError = Infinity, parentBounds = None \<rparr>"

text \<open>The records that one \<open>createMeshletWip\<close> per index list builds, the counter starting at \<open>n\<close>.\<close>

fun newMeshlets ::
  "'adj env \<Rightarrow> nat \<Rightarrow> number \<Rightarrow> nat list \<Rightarrow> BoundingSphere \<Rightarrow> nat \<Rightarrow> u32 list list \<Rightarrow> MeshletWIP list" where
  "newMeshlets env l e cf b n [] = []"
| "newMeshlets env l e cf b n (ixs # iss) =
     newMeshlet env l e cf b n ixs # newMeshlets env l e cf b (Suc n) iss"

text \<open>A meshlet once the parent data is assigned.\<close>

definition withParent :: "number \<Rightarrow> BoundingSphere \<Rightarrow> MeshletWIP \<Rightarrow> MeshletWIP" where
  "withParent e b m = m\<lparr> parentError := e, parentBounds := Some b \<rparr>"

text \<open>The index buffers of the meshlets a surviving group creates.\<close>

definition newIndexLists :: "'adj env \<Rightarrow> nat \<Rightarrow> state \<Rightarrow> nat list \<Rightarrow> u32 list list" where
  "newIndexLists env n st cs =
     (if n = 1 then [indexBuffer (simplifiedMesh env st cs)]
      else splitIndices env (indexBuffer (simplifiedMesh env st cs)))"

text \<open>The warning of a group that stalls.\<close>

definition stallWarning :: "'adj env \<Rightarrow> nat \<Rightarrow> state \<Rightarrow> nat list \<Rightarrow> warning" where
  "stallWarning env l st cs =
     CouldNotSimplify l (trianglesBefore st cs) (trianglesAfter env st cs)"

text \<open>The meshlets the groups refer to.\<close>

definition members :: "nat option list list \<Rightarrow> nat set" where
  "members gs = {a. \<exists>g\<in>set gs. Some a \<in> set g}"

text \<open>
  Within a level whose store had \<open>L\<close> meshlets at its start: the groups refer to meshlets
  below \<open>L\<close>, the meshlets created so far lie at \<open>L\<close> or above and have no parent.
\<close>

definition fresh :: "nat \<Rightarrow> state \<Rightarrow> nat list \<Rightarrow> bool" where
  "fresh L st newly \<longleftrightarrow>
     L \<le> length (allMeshlets st) \<and> distinct newly \<and>
     (\<forall>a\<in>set newly. L \<le> a \<and> a < length (allMeshlets st) \<and>
        parentBounds (allMeshlets st ! a) = None)"

text \<open>At the head of the loop the current meshlets are different existing meshlets without parent.\<close>

definition current_ok :: "state \<Rightarrow> nat list \<Rightarrow> bool" where
  "current_ok st cur \<longleftrightarrow>
     distinct cur \<and>
     (\<forall>a\<in>set cur. a < length (allMeshlets st) \<and> parentBounds (allMeshlets st ! a) = None)"

text \<open>The references to the bottom meshlets.\<close>

definition bottomMeshlets :: "'adj env \<Rightarrow> u32 list \<Rightarrow> nat list" where
  "bottomMeshlets env indexArray = [0 ..< length (splitIndices env indexArray)]"

text \<open>The store once the bottom meshlets are created.\<close>

definition bottomState :: "'adj env \<Rightarrow> u32 list \<Rightarrow> state" where
  "bottomState env indexArray =
     \<lparr> NEXT_MESHLET_ID = length (splitIndices env indexArray),
       allMeshlets = newMeshlets env 0 (Fin 0) [] (calculateBounds env indexArray) 0
                       (splitIndices env indexArray),
       warnings = [] \<rparr>"

text \<open>The counter is the number of meshlets, and the ids count from 0 in the order of creation.\<close>

definition ids_ok :: "state \<Rightarrow> bool" where
  "ids_ok st \<longleftrightarrow>
     NEXT_MESHLET_ID st = length (allMeshlets st) \<and>
     map id' (allMeshlets st) = [0 ..< length (allMeshlets st)]"

text \<open>The own error of a meshlet is not \<open>Infinity\<close>; the parent bounds are undefined exactly when the parent error is \<open>Infinity\<close>.\<close>

definition meshlet_ok :: "MeshletWIP \<Rightarrow> bool" where
  "meshlet_ok m \<longleftrightarrow>
     maxSiblingsError m \<noteq> Infinity \<and> (parentBounds m = None \<longleftrightarrow> parentError m = Infinity)"

text \<open>Every meshlet of the store is as \<open>meshlet_ok\<close> says.\<close>

definition store_ok :: "state \<Rightarrow> bool" where
  "store_ok st \<longleftrightarrow> (\<forall>m\<in>set (allMeshlets st). meshlet_ok m)"

text \<open>The parent error of every meshlet of the store is at least its own error.\<close>

definition store_mono :: "state \<Rightarrow> bool" where
  "store_mono st \<longleftrightarrow>
     (\<forall>m\<in>set (allMeshlets st). num_le (maxSiblingsError m) (parentError m))"

text \<open>The simplifier reports a non-negative error, whatever it is given.\<close>

definition nonneg_errors :: "'adj env \<Rightarrow> bool" where
  "nonneg_errors env \<longleftrightarrow>
     (\<forall>ixs opts.
        0 \<le> error (simplifyMesh env ixs opts) * errorScale (simplifyMesh env ixs opts))"


text \<open>The entries of a group that refer to a meshlet.\<close>

definition somes :: "nat option list \<Rightarrow> nat list" where
  "somes g = map the (filter (\<lambda>x. x \<noteq> None) g)"

text \<open>The partitioner names no index twice, whatever it is given.\<close>

definition partition_ok :: "'adj env \<Rightarrow> bool" where
  "partition_ok env \<longleftrightarrow> (\<forall>adj k. distinct (concat (partitionGraph env adj k)))"

text \<open>The groups still to come refer to existing meshlets without parent, each at most once.\<close>

definition groups_ok :: "state \<Rightarrow> nat option list list \<Rightarrow> bool" where
  "groups_ok st gs \<longleftrightarrow>
     distinct (concat (map somes gs)) \<and>
     (\<forall>a\<in>members gs. a < length (allMeshlets st) \<and> parentBounds (allMeshlets st ! a) = None)"

text \<open>Every child that a meshlet was created from carries the error and the bounds of that meshlet as its parent data.\<close>

definition links_ok :: "state \<Rightarrow> bool" where
  "links_ok st \<longleftrightarrow>
     (\<forall>p\<in>set (allMeshlets st). \<forall>c\<in>set (createdFrom p).
        c < length (allMeshlets st) \<and>
        parentError (allMeshlets st ! c) = maxSiblingsError p \<and>
        parentBounds (allMeshlets st ! c) = Some (sharedSiblingsBounds p))"

text \<open>
  The stores a construction can be in between two groups: the store after the bottom
  level, and the store after a group that refers to existing meshlets, from such a store.
\<close>

inductive reachable :: "'adj env \<Rightarrow> u32 list \<Rightarrow> state \<Rightarrow> bool" for env idx where
  bottom: "reachable env idx (bottomState env idx)"
| group: "reachable env idx st \<Longrightarrow>
          \<forall>a. Some a \<in> set g \<longrightarrow> a < length (allMeshlets st) \<Longrightarrow>
          processGroup env l n g (st, newly) = Inr (st', newly') \<Longrightarrow>
          reachable env idx st'"


text \<open>
  The level counter, \<open>currentMeshlets\<close> and the store at the head of the loop, for every
  iteration the construction of a mesh enters.
\<close>

inductive loopHead :: "'adj env \<Rightarrow> u32 list \<Rightarrow> nat \<Rightarrow> nat list \<Rightarrow> state \<Rightarrow> bool"
  for env idx where
  first: "loopHead env idx 1 (bottomMeshlets env idx) (bottomState env idx)"
| later: "loopHead env idx l cur st \<Longrightarrow> l < MAX_LODS + 1 \<Longrightarrow> 2 \<le> length cur \<Longrightarrow>
         processGroups env l (length (partitioned env st cur)) (partitioned env st cur) (st, [])
           = Inr (st1, newly) \<Longrightarrow>
         \<not> (l = 1 \<and> newly = []) \<Longrightarrow>
         loopHead env idx (l + 1) newly st1"

section \<open>Lemmas\<close>

subsection \<open>Numbers\<close>

lemma num_le_refl [simp]: "num_le x x"
  by (cases x) auto

lemma num_le_trans: "num_le x y \<Longrightarrow> num_le y z \<Longrightarrow> num_le x z"
  by (cases x; cases y; cases z) auto

lemma num_le_total: "num_le x y \<or> num_le y x"
  by (cases x; cases y) auto

lemma num_le_Infinity [simp]: "num_le x Infinity"
  by (cases x) auto

lemma num_max_ge1: "num_le a (num_max a b)"
  using num_le_total [of a b] by (auto simp: num_max_def)

lemma num_max_ge2: "num_le b (num_max a b)"
  using num_le_total [of a b] by (auto simp: num_max_def)

lemma num_max_neq_Infinity: "a \<noteq> Infinity \<Longrightarrow> b \<noteq> Infinity \<Longrightarrow> num_max a b \<noteq> Infinity"
  by (simp add: num_max_def)

lemma Math_max_ge: "x \<in> set xs \<Longrightarrow> num_le x (Math_max xs)"
proof (induction xs)
  case Nil
  then show ?case by simp
next
  case (Cons y ys)
  show ?case
  proof (cases "x = y")
    case True
    then show ?thesis by (simp add: Math_max_def num_max_ge1)
  next
    case False
    with Cons have "num_le x (Math_max ys)" by simp
    moreover have "num_le (Math_max ys) (Math_max (y # ys))"
      by (simp add: Math_max_def num_max_ge2)
    ultimately show ?thesis by (rule num_le_trans)
  qed
qed

lemma Math_max_neq_Infinity: "\<forall>x\<in>set xs. x \<noteq> Infinity \<Longrightarrow> Math_max xs \<noteq> Infinity"
  by (induction xs) (auto simp: Math_max_def num_max_neq_Infinity)

lemma add_fin_neq_Infinity: "x \<noteq> Infinity \<Longrightarrow> add_fin a x \<noteq> Infinity"
  by (cases x) auto

lemma num_le_add_fin: "0 \<le> a \<Longrightarrow> num_le x y \<Longrightarrow> num_le x (add_fin a y)"
  by (cases x; cases y) auto

subsection \<open>Creation\<close>

lemma upt_add_Suc: "n # [Suc n ..< Suc (n + k)] = [n ..< Suc (n + k)]"
  by (simp del: upt_Suc add: upt_conv_Cons)

lemma length_newMeshlets [simp]: "length (newMeshlets env l e cf b n iss) = length iss"
  by (induction iss arbitrary: n) simp_all

lemma map_id_newMeshlets: "map id' (newMeshlets env l e cf b n iss) = [n ..< n + length iss]"
  by (induction iss arbitrary: n) (simp_all del: upt_Suc add: newMeshlet_def upt_add_Suc)

lemma in_newMeshlets:
  "m \<in> set (newMeshlets env l e cf b n iss) \<Longrightarrow>
     parentBounds m = None \<and> parentError m = Infinity \<and> maxSiblingsError m = e \<and>
     sharedSiblingsBounds m = b \<and> createdFrom m = cf \<and> lodLevel m = l"
  by (induction iss arbitrary: n) (auto simp: newMeshlet_def)

lemma createMeshletWip_eq:
  "createMeshletWip env l is e cf b st =
     (length (allMeshlets st),
      st\<lparr> NEXT_MESHLET_ID := NEXT_MESHLET_ID st + 1,
          allMeshlets := allMeshlets st @ [newMeshlet env l e cf b (NEXT_MESHLET_ID st) is] \<rparr>)"
  by (simp add: createMeshletWip_def newMeshlet_def)

lemma createMeshletWips_eq:
  "createMeshletWips env l iss e cf b st =
     ([length (allMeshlets st) ..< length (allMeshlets st) + length iss],
      st\<lparr> NEXT_MESHLET_ID := NEXT_MESHLET_ID st + length iss,
          allMeshlets := allMeshlets st @ newMeshlets env l e cf b (NEXT_MESHLET_ID st) iss \<rparr>)"
proof (induction iss arbitrary: st)
  case Nil
  then show ?case by simp
next
  case (Cons ixs iss)
  show ?case
    by (simp del: upt_Suc add: Cons.IH createMeshletWip_eq upt_add_Suc)
qed

subsection \<open>Parent assignment\<close>

lemma length_setParents [simp]: "length (setParents cs e b ms) = length ms"
  by (induction cs arbitrary: ms) simp_all

lemma nth_setParents:
  "a < length ms \<Longrightarrow>
     setParents cs e b ms ! a = (if a \<in> set cs then withParent e b (ms ! a) else ms ! a)"
proof (induction cs arbitrary: ms)
  case Nil
  then show ?case by simp
next
  case (Cons c cs)
  then show ?case
    by (cases "a = c") (auto simp: withParent_def nth_list_update)
qed

lemma own_withParent [simp]: "own (withParent e b m) = own m"
  by (simp add: own_def withParent_def)

lemma map_setParents:
  assumes "\<And>m. f (withParent e b m) = f m"
  shows "map f (setParents cs e b ms) = map f ms"
  by (rule nth_equalityI) (simp_all add: nth_setParents assms)

subsection \<open>One group\<close>

lemma processGroup_undefined:
  "those g = None \<Longrightarrow> processGroup env l n g acc = Inl TypeError"
  by (simp add: processGroup_def)

lemma processGroup_stall:
  "those g = Some cs \<Longrightarrow> simplificationUnsuccessful env st cs \<Longrightarrow>
     processGroup env l n g (st, newly) =
       Inr (st\<lparr> warnings := warnings st @ [stallWarning env l st cs] \<rparr>, newly)"
  by (simp add: processGroup_def stallWarning_def)

lemma processGroup_ok:
  "those g = Some cs \<Longrightarrow> \<not> simplificationUnsuccessful env st cs \<Longrightarrow>
     processGroup env l n g (st, newly) =
       Inr (st\<lparr> NEXT_MESHLET_ID := NEXT_MESHLET_ID st + length (newIndexLists env n st cs),
                 allMeshlets :=
                   setParents cs (totalError env st cs) (bounds env st cs)
                     (allMeshlets st @
                      newMeshlets env l (totalError env st cs) cs (bounds env st cs)
                        (NEXT_MESHLET_ID st) (newIndexLists env n st cs)) \<rparr>,
            newly @ [length (allMeshlets st) ..<
                     length (allMeshlets st) + length (newIndexLists env n st cs)])"
  by (simp add: processGroup_def newIndexLists_def splitIntoMeshlets_def
      createMeshletWips_eq createMeshletWip_eq)

lemma those_Some_iff: "those g = Some cs \<longleftrightarrow> g = map Some cs"
proof (induction g arbitrary: cs)
  case Nil
  then show ?case by auto
next
  case (Cons x g)
  show ?case
  proof (cases x)
    case None
    then show ?thesis by auto
  next
    case (Some a)
    then show ?thesis
      using Cons.IH by (cases cs) (auto split: option.splits)
  qed
qed

text \<open>The three outcomes of a group.\<close>

lemma processGroup_Inr_cases:
  assumes "processGroup env l n g (st, newly) = Inr (st', newly')"
  obtains
    (stall) cs where "g = map Some cs" "simplificationUnsuccessful env st cs"
      "st' = st\<lparr> warnings := warnings st @ [stallWarning env l st cs] \<rparr>" "newly' = newly"
  | (ok) cs where "g = map Some cs" "\<not> simplificationUnsuccessful env st cs"
      "st' = st\<lparr> NEXT_MESHLET_ID := NEXT_MESHLET_ID st + length (newIndexLists env n st cs),
                 allMeshlets :=
                   setParents cs (totalError env st cs) (bounds env st cs)
                     (allMeshlets st @
                      newMeshlets env l (totalError env st cs) cs (bounds env st cs)
                        (NEXT_MESHLET_ID st) (newIndexLists env n st cs)) \<rparr>"
      "newly' = newly @ [length (allMeshlets st) ..<
                     length (allMeshlets st) + length (newIndexLists env n st cs)]"
proof (cases "those g")
  case None
  with assms show ?thesis by (simp add: processGroup_undefined)
next
  case (Some cs)
  then have g: "g = map Some cs" by (simp add: those_Some_iff)
  show ?thesis
  proof (cases "simplificationUnsuccessful env st cs")
    case True
    with assms Some g show ?thesis
      by (intro stall [of cs]) (simp_all add: processGroup_stall)
  next
    case False
    with assms Some g show ?thesis
      by (intro ok [of cs]) (simp_all add: processGroup_ok)
  qed
qed

subsection \<open>What a group leaves untouched\<close>

lemma processGroup_frame:
  assumes "processGroup env l n g (st, newly) = Inr (st', newly')"
  shows "length (allMeshlets st) \<le> length (allMeshlets st')"
    and "a < length (allMeshlets st) \<Longrightarrow> Some a \<notin> set g \<Longrightarrow>
           allMeshlets st' ! a = allMeshlets st ! a"
    and "a < length (allMeshlets st) \<Longrightarrow> own (allMeshlets st' ! a) = own (allMeshlets st ! a)"
    and "set newly' \<subseteq> set newly \<union> {length (allMeshlets st) ..< length (allMeshlets st')}"
proof -
  show "length (allMeshlets st) \<le> length (allMeshlets st')"
    using assms by (cases rule: processGroup_Inr_cases) simp_all
  show "set newly' \<subseteq> set newly \<union> {length (allMeshlets st) ..< length (allMeshlets st')}"
    using assms by (cases rule: processGroup_Inr_cases) simp_all
  show "allMeshlets st' ! a = allMeshlets st ! a"
    if "a < length (allMeshlets st)" "Some a \<notin> set g"
    using assms
  proof (cases rule: processGroup_Inr_cases)
    case (stall cs)
    then show ?thesis by simp
  next
    case (ok cs)
    with that have "a \<notin> set cs" by auto
    with ok that show ?thesis by (simp add: nth_setParents nth_append)
  qed
  show "own (allMeshlets st' ! a) = own (allMeshlets st ! a)"
    if "a < length (allMeshlets st)"
    using assms
  proof (cases rule: processGroup_Inr_cases)
    case (stall cs)
    then show ?thesis by simp
  next
    case (ok cs)
    with that show ?thesis by (simp add: nth_setParents nth_append)
  qed
qed

lemma members_Nil [simp]: "members [] = {}"
  by (simp add: members_def)

lemma members_Cons: "members (g # gs) = {a. Some a \<in> set g} \<union> members gs"
  by (auto simp: members_def)

lemma processGroups_frame:
  assumes "processGroups env l n gs (st, newly) = Inr (st', newly')"
  shows "length (allMeshlets st) \<le> length (allMeshlets st') \<and>
         (\<forall>a < length (allMeshlets st). a \<notin> members gs \<longrightarrow>
            allMeshlets st' ! a = allMeshlets st ! a) \<and>
         (\<forall>a < length (allMeshlets st). own (allMeshlets st' ! a) = own (allMeshlets st ! a)) \<and>
         set newly' \<subseteq> set newly \<union> {length (allMeshlets st) ..< length (allMeshlets st')}"
  using assms
proof (induction gs arbitrary: st newly)
  case Nil
  then show ?case by simp
next
  case (Cons g gs)
  from Cons.prems obtain st1 newly1 where
    g: "processGroup env l n g (st, newly) = Inr (st1, newly1)" and
    gs: "processGroups env l n gs (st1, newly1) = Inr (st', newly')"
    by (auto split: sum.splits)
  note f = processGroup_frame [OF g]
  note ih = Cons.IH [OF gs]
  show ?case
  proof (intro conjI allI impI)
    show "length (allMeshlets st) \<le> length (allMeshlets st')"
      using f(1) ih by linarith
  next
    fix a assume a: "a < length (allMeshlets st)" "a \<notin> members (g # gs)"
    then have "allMeshlets st1 ! a = allMeshlets st ! a"
      using f(2) by (simp add: members_Cons)
    moreover have "allMeshlets st' ! a = allMeshlets st1 ! a"
      using ih a f(1) by (simp add: members_Cons)
    ultimately show "allMeshlets st' ! a = allMeshlets st ! a" by simp
  next
    fix a assume a: "a < length (allMeshlets st)"
    then have "own (allMeshlets st' ! a) = own (allMeshlets st1 ! a)"
      using ih f(1) by simp
    then show "own (allMeshlets st' ! a) = own (allMeshlets st ! a)"
      using f(3) a by simp
  next
    have "set newly' \<subseteq> set newly1 \<union> {length (allMeshlets st1) ..< length (allMeshlets st')}"
      using ih by blast
    moreover have "{length (allMeshlets st1) ..< length (allMeshlets st')}
        \<subseteq> {length (allMeshlets st) ..< length (allMeshlets st')}"
      using f(1) by auto
    moreover have "{length (allMeshlets st) ..< length (allMeshlets st1)}
        \<subseteq> {length (allMeshlets st) ..< length (allMeshlets st')}"
      using ih by auto
    ultimately show "set newly' \<subseteq> set newly \<union> {length (allMeshlets st) ..< length (allMeshlets st')}"
      using f(4) by blast
  qed
qed

lemma members_partitioned: "members (partitioned env st cur) \<subseteq> set cur"
  by (auto simp: members_def partitioned_def Let_def split: if_splits)

text \<open>One unfolding of the loop, for a construction that returns.\<close>

lemma lodLoop_Inr_cases:
  assumes "lodLoop env vc l cur st = Inr r"
  obtains
    (stop) "r = (l, cur, st)" "\<not> l < MAX_LODS + 1 \<or> length cur < 2"
  | (level) st1 newly where "l < MAX_LODS + 1" "2 \<le> length cur"
      "processGroups env l (length (partitioned env st cur)) (partitioned env st cur) (st, [])
         = Inr (st1, newly)"
      "\<not> (l = 1 \<and> newly = [])"
      "lodLoop env vc (l + 1) newly st1 = Inr r"
  using assms
  by (subst (asm) lodLoop.simps) (auto split: if_splits sum.splits)

lemma lodLoop_frame:
  "lodLoop env vc l cur st = Inr (l', cur', st') \<Longrightarrow>
     length (allMeshlets st) \<le> length (allMeshlets st') \<and>
     (\<forall>a < length (allMeshlets st). a \<notin> set cur \<longrightarrow>
        allMeshlets st' ! a = allMeshlets st ! a) \<and>
     (\<forall>a < length (allMeshlets st). own (allMeshlets st' ! a) = own (allMeshlets st ! a))"
proof (induction "MAX_LODS + 1 - l" arbitrary: l cur st)
  case 0
  from "0.prems" show ?case
  proof (cases rule: lodLoop_Inr_cases)
    case stop
    then show ?thesis by simp
  next
    case (level st1 newly)
    with "0.hyps" show ?thesis by simp
  qed
next
  case (Suc k)
  from Suc.prems show ?case
  proof (cases rule: lodLoop_Inr_cases)
    case stop
    then show ?thesis by simp
  next
    case (level st1 newly)
    note f = processGroups_frame [OF level(3)]
    have "k = MAX_LODS + 1 - (l + 1)" using Suc.hyps(2) by simp
    note ih = Suc.hyps(1) [OF this level(5)]
    have new: "set newly \<subseteq> {length (allMeshlets st) ..< length (allMeshlets st1)}"
      using f by simp
    show ?thesis
    proof (intro conjI allI impI)
      show "length (allMeshlets st) \<le> length (allMeshlets st')"
        using f ih by linarith
    next
      fix a assume a: "a < length (allMeshlets st)" "a \<notin> set cur"
      then have "a \<notin> members (partitioned env st cur)"
        using members_partitioned by blast
      then have "allMeshlets st1 ! a = allMeshlets st ! a" using f a by simp
      moreover have "a \<notin> set newly" using new a by auto
      then have "allMeshlets st' ! a = allMeshlets st1 ! a" using ih a f by simp
      ultimately show "allMeshlets st' ! a = allMeshlets st ! a" by simp
    next
      fix a assume a: "a < length (allMeshlets st)"
      then have "own (allMeshlets st' ! a) = own (allMeshlets st1 ! a)" using ih f by simp
      then show "own (allMeshlets st' ! a) = own (allMeshlets st ! a)" using f a by simp
    qed
  qed
qed

subsection \<open>The meshlets of the current level have no parent\<close>

lemma nth_newMeshlets_root:
  "k < length iss \<Longrightarrow> parentBounds (newMeshlets env l e cf b n iss ! k) = None"
  using in_newMeshlets [of "newMeshlets env l e cf b n iss ! k" env l e cf b n iss]
  by simp

lemma processGroup_fresh:
  assumes "processGroup env l n g (st, newly) = Inr (st', newly')"
    and "\<forall>a. Some a \<in> set g \<longrightarrow> a < L" and "fresh L st newly"
  shows "fresh L st' newly'"
  using assms(1)
proof (cases rule: processGroup_Inr_cases)
  case (stall cs)
  with assms(3) show ?thesis by (simp add: fresh_def)
next
  case (ok cs)
  have cs: "\<forall>a\<in>set cs. a < L" using assms(2) ok(1) by auto
  have L: "L \<le> length (allMeshlets st)" using assms(3) by (simp add: fresh_def)
  show ?thesis
    unfolding fresh_def
  proof (intro conjI ballI)
    show "L \<le> length (allMeshlets st')" using ok L by simp
  next
    show "distinct newly'" using ok(4) assms(3) by (auto simp: fresh_def)
  next
    fix a assume a: "a \<in> set newly'"
    then consider "a \<in> set newly"
      | "length (allMeshlets st) \<le> a"
        "a < length (allMeshlets st) + length (newIndexLists env n st cs)"
      using ok(4) by auto
    then show "L \<le> a" using assms(3) L by cases (auto simp: fresh_def)
    from a ok show "a < length (allMeshlets st')"
      using assms(3) by (auto simp: fresh_def)
    have notcs: "a \<notin> set cs" using \<open>L \<le> a\<close> cs by auto
    from a consider "a \<in> set newly"
      | "length (allMeshlets st) \<le> a"
        "a < length (allMeshlets st) + length (newIndexLists env n st cs)"
      using ok(4) by auto
    then show "parentBounds (allMeshlets st' ! a) = None"
    proof cases
      case 1
      with assms(3) have "a < length (allMeshlets st)"
        "parentBounds (allMeshlets st ! a) = None"
        by (auto simp: fresh_def)
      with ok notcs show ?thesis by (simp add: nth_setParents nth_append)
    next
      case 2
      with ok notcs show ?thesis
        by (simp add: nth_setParents nth_append nth_newMeshlets_root)
    qed
  qed
qed

lemma processGroups_fresh:
  assumes "processGroups env l n gs (st, newly) = Inr (st', newly')"
    and "members gs \<subseteq> {..<L}" and "fresh L st newly"
  shows "fresh L st' newly'"
  using assms
proof (induction gs arbitrary: st newly)
  case Nil
  then show ?case by simp
next
  case (Cons g gs)
  from Cons.prems(1) obtain st1 newly1 where
    g: "processGroup env l n g (st, newly) = Inr (st1, newly1)" and
    gs: "processGroups env l n gs (st1, newly1) = Inr (st', newly')"
    by (auto split: sum.splits)
  have "\<forall>a. Some a \<in> set g \<longrightarrow> a < L" using Cons.prems(2) by (auto simp: members_Cons)
  with g have "fresh L st1 newly1" using Cons.prems(3) by (rule processGroup_fresh)
  moreover have "members gs \<subseteq> {..<L}" using Cons.prems(2) by (auto simp: members_Cons)
  ultimately show ?case using Cons.IH gs by blast
qed

lemma fresh_current_ok: "fresh L st newly \<Longrightarrow> current_ok st newly"
  by (simp add: fresh_def current_ok_def)

lemma level_fresh:
  assumes "processGroups env l n (partitioned env st cur) (st, []) = Inr (st', newly)"
    and "current_ok st cur"
  shows "fresh (length (allMeshlets st)) st' newly"
proof -
  have "members (partitioned env st cur) \<subseteq> {..<length (allMeshlets st)}"
    using members_partitioned [of env st cur] assms(2) by (auto simp: current_ok_def)
  moreover have "fresh (length (allMeshlets st)) st []" by (simp add: fresh_def)
  ultimately show ?thesis using assms(1) processGroups_fresh by blast
qed

text \<open>
  An invariant of the store that every group keeps (given that the group refers to
  meshlets that exist) holds when the construction returns.
\<close>

lemma processGroups_invariant:
  assumes step: "\<And>l n g st newly st' newly'.
      J st \<Longrightarrow> \<forall>a. Some a \<in> set g \<longrightarrow> a < length (allMeshlets st) \<Longrightarrow>
      processGroup env l n g (st, newly) = Inr (st', newly') \<Longrightarrow> J st'"
    and "processGroups env l n gs (st, newly) = Inr (st', newly')"
    and "J st" and "members gs \<subseteq> {..<length (allMeshlets st)}"
  shows "J st'"
  using assms(2-)
proof (induction gs arbitrary: st newly)
  case Nil
  then show ?case by simp
next
  case (Cons g gs)
  from Cons.prems(1) obtain st1 newly1 where
    g: "processGroup env l n g (st, newly) = Inr (st1, newly1)" and
    gs: "processGroups env l n gs (st1, newly1) = Inr (st', newly')"
    by (auto split: sum.splits)
  have "\<forall>a. Some a \<in> set g \<longrightarrow> a < length (allMeshlets st)"
    using Cons.prems(3) by (auto simp: members_Cons)
  with Cons.prems(2) have "J st1" using g by (rule step)
  moreover have "members gs \<subseteq> {..<length (allMeshlets st1)}"
    using Cons.prems(3) processGroup_frame(1) [OF g] by (auto simp: members_Cons)
  ultimately show ?case using Cons.IH gs by blast
qed

lemma lodLoop_invariant:
  assumes step: "\<And>l n g st newly st' newly'.
      J st \<Longrightarrow> \<forall>a. Some a \<in> set g \<longrightarrow> a < length (allMeshlets st) \<Longrightarrow>
      processGroup env l n g (st, newly) = Inr (st', newly') \<Longrightarrow> J st'"
    and "lodLoop env vc l cur st = Inr (l', cur', st')"
    and "J st" and "current_ok st cur"
  shows "J st' \<and> current_ok st' cur'"
  using assms(2-)
proof (induction "MAX_LODS + 1 - l" arbitrary: l cur st)
  case 0
  from "0.prems"(1) show ?case
  proof (cases rule: lodLoop_Inr_cases)
    case stop
    with "0.prems" show ?thesis by simp
  next
    case (level st1 newly)
    with "0.hyps" show ?thesis by simp
  qed
next
  case (Suc k)
  from Suc.prems(1) show ?case
  proof (cases rule: lodLoop_Inr_cases)
    case stop
    with Suc.prems show ?thesis by simp
  next
    case (level st1 newly)
    have m: "members (partitioned env st cur) \<subseteq> {..<length (allMeshlets st)}"
      using members_partitioned [of env st cur] Suc.prems(3) by (auto simp: current_ok_def)
    have "J st1"
      using step level(3) Suc.prems(2) m by (rule processGroups_invariant)
    moreover have "current_ok st1 newly"
      using level_fresh [OF level(3) Suc.prems(3)] by (rule fresh_current_ok)
    moreover have "k = MAX_LODS + 1 - (l + 1)" using Suc.hyps(2) by simp
    ultimately show ?thesis using Suc.hyps(1) level(5) by blast
  qed
qed

subsection \<open>The bottom level\<close>

lemma construction_eq:
  "construction env vc idx g = lodLoop env vc 1 (bottomMeshlets env idx) (bottomState env idx)"
  by (simp add: construction_def splitIntoMeshlets_def createMeshletWips_eq bottomMeshlets_def
      bottomState_def)

lemma current_ok_bottom: "current_ok (bottomState env idx) (bottomMeshlets env idx)"
  by (simp add: current_ok_def bottomState_def bottomMeshlets_def nth_newMeshlets_root)

subsection \<open>Identifiers\<close>

lemma ids_ok_bottom: "ids_ok (bottomState env idx)"
  using map_id_newMeshlets [of env 0 "Fin 0" "[]" "calculateBounds env idx" 0 "splitIndices env idx"]
  by (simp add: ids_ok_def bottomState_def)

lemma upt_append_upt: "[0 ..< n] @ [n ..< n + k] = [0 ..< n + k]"
  by (metis le_add1 upt_add_eq_append zero_le)

lemma processGroup_ids_ok:
  assumes "ids_ok st" and "processGroup env l n g (st, newly) = Inr (st', newly')"
  shows "ids_ok st'"
  using assms(2)
proof (cases rule: processGroup_Inr_cases)
  case (stall cs)
  with assms(1) show ?thesis by (simp add: ids_ok_def)
next
  case (ok cs)
  have "map id' (allMeshlets st') =
      map id' (allMeshlets st @
        newMeshlets env l (totalError env st cs) cs (bounds env st cs)
          (NEXT_MESHLET_ID st) (newIndexLists env n st cs))"
    using ok(3) by (simp add: map_setParents withParent_def)
  also have "\<dots> = [0 ..< length (allMeshlets st)] @
      [length (allMeshlets st) ..< length (allMeshlets st) + length (newIndexLists env n st cs)]"
    using assms(1) by (simp add: ids_ok_def map_id_newMeshlets)
  finally show ?thesis
    using ok(3) assms(1) by (simp add: ids_ok_def upt_append_upt)
qed

lemma construction_ids_ok:
  assumes "construction env vc idx g = Inr (l, cur, st)"
  shows "ids_ok st"
proof -
  have "lodLoop env vc 1 (bottomMeshlets env idx) (bottomState env idx) = Inr (l, cur, st)"
    using assms by (simp add: construction_eq)
  then have "ids_ok st \<and> current_ok st cur"
    using ids_ok_bottom current_ok_bottom
    by (rule lodLoop_invariant [where J = ids_ok, rotated]) (rule processGroup_ids_ok)
  then show ?thesis ..
qed

subsection \<open>Roots and errors\<close>

lemma setParents_append_all:
  assumes "\<forall>m\<in>set ms. P m" and "\<forall>m\<in>set news. P m"
    and "\<And>a. a \<in> set cs \<Longrightarrow> a < length ms \<Longrightarrow> P (withParent e b (ms ! a))"
    and "\<forall>a\<in>set cs. a < length ms"
  shows "\<forall>m\<in>set (setParents cs e b (ms @ news)). P m"
  unfolding all_set_conv_all_nth
proof (intro allI impI)
  fix a assume "a < length (setParents cs e b (ms @ news))"
  then have a: "a < length ms + length news" by simp
  show "P (setParents cs e b (ms @ news) ! a)"
  proof (cases "a \<in> set cs")
    case True
    with assms(4) have "a < length ms" by simp
    with True assms(3) show ?thesis by (simp add: nth_setParents nth_append)
  next
    case False
    show ?thesis
    proof (cases "a < length ms")
      case True
      with assms(1) False show ?thesis by (simp add: nth_setParents nth_append)
    next
      case False
      with a have "news ! (a - length ms) \<in> set news" by simp
      with assms(2) have "P (news ! (a - length ms))" by blast
      with \<open>a \<notin> set cs\<close> False a show ?thesis by (simp add: nth_setParents nth_append)
    qed
  qed
qed

lemma childrenError_neq_Infinity:
  assumes "store_ok st" and "\<forall>a\<in>set cs. a < length (allMeshlets st)"
  shows "childrenError st cs \<noteq> Infinity"
  unfolding childrenError_def
proof (rule Math_max_neq_Infinity, rule ballI)
  fix x assume "x \<in> set (map (\<lambda>c. maxSiblingsError (allMeshlets st ! c)) cs)"
  then obtain c where "c \<in> set cs" "x = maxSiblingsError (allMeshlets st ! c)" by auto
  moreover from this assms(2) have "allMeshlets st ! c \<in> set (allMeshlets st)" by simp
  ultimately show "x \<noteq> Infinity" using assms(1) by (simp add: store_ok_def meshlet_ok_def)
qed

lemma processGroup_store_ok:
  assumes "store_ok st" and "\<forall>a. Some a \<in> set g \<longrightarrow> a < length (allMeshlets st)"
    and "processGroup env l n g (st, newly) = Inr (st', newly')"
  shows "store_ok st'"
  using assms(3)
proof (cases rule: processGroup_Inr_cases)
  case (stall cs)
  with assms(1) show ?thesis by (simp add: store_ok_def)
next
  case (ok cs)
  have cs: "\<forall>a\<in>set cs. a < length (allMeshlets st)" using assms(2) ok(1) by auto
  have E: "totalError env st cs \<noteq> Infinity"
    using childrenError_neq_Infinity [OF assms(1) cs]
    by (simp add: totalError_def add_fin_neq_Infinity)
  have "\<forall>m\<in>set (setParents cs (totalError env st cs) (bounds env st cs)
          (allMeshlets st @ newMeshlets env l (totalError env st cs) cs (bounds env st cs)
             (NEXT_MESHLET_ID st) (newIndexLists env n st cs))). meshlet_ok m"
  proof (rule setParents_append_all)
    show "\<forall>m\<in>set (allMeshlets st). meshlet_ok m" using assms(1) by (simp add: store_ok_def)
    show "\<forall>m\<in>set (newMeshlets env l (totalError env st cs) cs (bounds env st cs)
             (NEXT_MESHLET_ID st) (newIndexLists env n st cs)). meshlet_ok m"
      using E by (auto simp: meshlet_ok_def dest: in_newMeshlets)
    show "meshlet_ok (withParent (totalError env st cs) (bounds env st cs) (allMeshlets st ! a))"
      if "a \<in> set cs" "a < length (allMeshlets st)" for a
    proof -
      have "meshlet_ok (allMeshlets st ! a)" using assms(1) that(2) by (simp add: store_ok_def)
      then show ?thesis using E by (simp add: meshlet_ok_def withParent_def)
    qed
    show "\<forall>a\<in>set cs. a < length (allMeshlets st)" by (rule cs)
  qed
  then show ?thesis using ok(3) by (simp add: store_ok_def)
qed

lemma processGroup_store_mono:
  assumes "nonneg_errors env"
    and "store_mono st" and "\<forall>a. Some a \<in> set g \<longrightarrow> a < length (allMeshlets st)"
    and "processGroup env l n g (st, newly) = Inr (st', newly')"
  shows "store_mono st'"
  using assms(4)
proof (cases rule: processGroup_Inr_cases)
  case (stall cs)
  with assms(2) show ?thesis by (simp add: store_mono_def)
next
  case (ok cs)
  have cs: "\<forall>a\<in>set cs. a < length (allMeshlets st)" using assms(3) ok(1) by auto
  have nn: "0 \<le> errorNow env st cs"
    using assms(1) by (simp add: nonneg_errors_def errorNow_def simplifiedMesh_def Let_def)
  have "\<forall>m\<in>set (setParents cs (totalError env st cs) (bounds env st cs)
          (allMeshlets st @ newMeshlets env l (totalError env st cs) cs (bounds env st cs)
             (NEXT_MESHLET_ID st) (newIndexLists env n st cs))).
          num_le (maxSiblingsError m) (parentError m)"
  proof (rule setParents_append_all)
    show "\<forall>m\<in>set (allMeshlets st). num_le (maxSiblingsError m) (parentError m)"
      using assms(2) by (simp add: store_mono_def)
    show "\<forall>m\<in>set (newMeshlets env l (totalError env st cs) cs (bounds env st cs)
             (NEXT_MESHLET_ID st) (newIndexLists env n st cs)).
            num_le (maxSiblingsError m) (parentError m)"
      by (auto dest: in_newMeshlets)
    show "num_le (maxSiblingsError (withParent (totalError env st cs) (bounds env st cs)
              (allMeshlets st ! a)))
            (parentError (withParent (totalError env st cs) (bounds env st cs)
              (allMeshlets st ! a)))"
      if "a \<in> set cs" "a < length (allMeshlets st)" for a
    proof -
      have "num_le (maxSiblingsError (allMeshlets st ! a)) (childrenError st cs)"
        unfolding childrenError_def using that(1) by (intro Math_max_ge) simp
      then have "num_le (maxSiblingsError (allMeshlets st ! a)) (totalError env st cs)"
        unfolding totalError_def using nn by (intro num_le_add_fin)
      then show ?thesis by (simp add: withParent_def)
    qed
    show "\<forall>a\<in>set cs. a < length (allMeshlets st)" by (rule cs)
  qed
  then show ?thesis using ok(3) by (simp add: store_mono_def)
qed

lemma store_ok_bottom: "store_ok (bottomState env idx)"
  by (auto simp: store_ok_def bottomState_def meshlet_ok_def dest: in_newMeshlets)

lemma store_mono_bottom: "store_mono (bottomState env idx)"
  by (auto simp: store_mono_def bottomState_def dest: in_newMeshlets)


lemma construction_store_mono:
  assumes "nonneg_errors env" and "construction env vc idx g = Inr (l, cur, st)"
  shows "store_mono st"
proof -
  have "lodLoop env vc 1 (bottomMeshlets env idx) (bottomState env idx) = Inr (l, cur, st)"
    using assms by (simp add: construction_eq)
  then have "store_mono st \<and> current_ok st cur"
    using store_mono_bottom current_ok_bottom
    by (rule lodLoop_invariant [where J = store_mono, rotated])
      (rule processGroup_store_mono [OF assms(1)])
  then show ?thesis ..
qed

subsection \<open>Errors and the level counter\<close>










subsection \<open>What the rest of a level leaves untouched\<close>

lemma finishLevel_frame:
  assumes "finishLevel env vc l n gs (st, newly) = Inr (l', cur', st')"
    and "a < length (allMeshlets st)" and "a \<notin> members gs" and "a \<notin> set newly"
  shows "allMeshlets st' ! a = allMeshlets st ! a"
proof -
  from assms(1) obtain st1 newly1 where
    gs: "processGroups env l n gs (st, newly) = Inr (st1, newly1)" and
    loop: "lodLoop env vc (l + 1) newly1 st1 = Inr (l', cur', st')"
    by (auto simp: finishLevel_def split: sum.splits if_splits)
  note f = processGroups_frame [OF gs]
  have "allMeshlets st1 ! a = allMeshlets st ! a" using f assms(2,3) by simp
  moreover have "a \<notin> set newly1" using f assms(2,4) by auto
  then have "allMeshlets st' ! a = allMeshlets st1 ! a"
    using lodLoop_frame [OF loop] f assms(2) by simp
  ultimately show ?thesis by simp
qed

lemma finishLevel_Cons:
  "finishLevel env vc l n (g # gs) acc =
     (case processGroup env l n g acc of
        Inl e \<Rightarrow> Inl e
      | Inr acc' \<Rightarrow> finishLevel env vc l n gs acc')"
  by (simp add: finishLevel_def split: sum.splits)

lemma lodLoop_finishLevel:
  "lodLoop env vc l cur st =
     (if l < MAX_LODS + 1 \<and> 2 \<le> length cur then
        finishLevel env vc l (length (partitioned env st cur)) (partitioned env st cur) (st, [])
      else Inr (l, cur, st))"
  by (subst lodLoop.simps) (auto simp: finishLevel_def)

subsection \<open>A level where every group stalls\<close>

lemma simplificationUnsuccessful_warnings [simp]:
  "simplificationUnsuccessful env (st\<lparr> warnings := w \<rparr>) cs = simplificationUnsuccessful env st cs"
  by (simp add: simplificationUnsuccessful_def trianglesAfter_def trianglesBefore_def
      simplifiedMesh_def megaMeshlet_def)

lemma processGroups_all_stall:
  assumes "\<forall>g\<in>set gs. \<exists>cs. g = map Some cs \<and> simplificationUnsuccessful env st cs"
  shows "\<exists>w. processGroups env l n gs (st, newly) = Inr (st\<lparr> warnings := w \<rparr>, newly)"
  using assms
proof (induction gs arbitrary: st)
  case Nil
  have "st = st\<lparr> warnings := warnings st \<rparr>" by simp
  then show ?case by (metis processGroups.simps(1))
next
  case (Cons g gs)
  then obtain cs where g: "g = map Some cs" and s: "simplificationUnsuccessful env st cs"
    by auto
  let ?st1 = "st\<lparr> warnings := warnings st @ [stallWarning env l st cs] \<rparr>"
  have 1: "processGroup env l n g (st, newly) = Inr (?st1, newly)"
    using g s by (simp add: processGroup_stall those_Some_iff)
  have "\<forall>g\<in>set gs. \<exists>cs. g = map Some cs \<and> simplificationUnsuccessful env ?st1 cs"
    using Cons.prems by simp
  from Cons.IH [OF this] obtain w where
    "processGroups env l n gs (?st1, newly) = Inr (?st1\<lparr> warnings := w \<rparr>, newly)" by blast
  with 1 show ?case by auto
qed

subsection \<open>Groups that share no meshlet\<close>

lemma set_somes: "set (somes g) = {a. Some a \<in> set g}"
  by (force simp: somes_def image_iff)

lemma somes_map_Some [simp]: "somes (map Some cs) = cs"
  by (induction cs) (simp_all add: somes_def)

lemma members_somes: "members gs = set (concat (map somes gs))"
  by (auto simp: members_def set_somes)

lemma somes_lookup:
  "somes (map (\<lambda>i. if i < length cur then Some (cur ! i) else None) idxs) =
     map ((!) cur) (filter (\<lambda>i. i < length cur) idxs)"
  by (induction idxs) (simp_all add: somes_def)

lemma distinct_partitioned:
  assumes "partition_ok env" and "distinct cur"
  shows "distinct (concat (map somes (partitioned env st cur)))"
proof (cases "length cur > GROUP_SIZE")
  case False
  with assms(2) show ?thesis by (simp add: partitioned_def)
next
  case True
  define parts where "parts = partitionGraph env
      (findAdjacentMeshlets env (map (\<lambda>m. boundaryEdges (allMeshlets st ! m)) cur))
      (nparts (length cur))"
  have d: "distinct (concat parts)" using assms(1) by (simp add: partition_ok_def parts_def)
  have "concat (map somes (partitioned env st cur)) =
      concat (map (\<lambda>idxs. map ((!) cur) (filter (\<lambda>i. i < length cur) idxs)) parts)"
    using True by (simp add: partitioned_def Let_def parts_def comp_def somes_lookup)
  also have "\<dots> = map ((!) cur) (filter (\<lambda>i. i < length cur) (concat parts))"
    by (induction parts) simp_all
  finally have eq: "concat (map somes (partitioned env st cur)) =
      map ((!) cur) (filter (\<lambda>i. i < length cur) (concat parts))" .
  have "inj_on ((!) cur) (set (filter (\<lambda>i. i < length cur) (concat parts)))"
    using assms(2) by (auto simp: inj_on_def nth_eq_iff_index_eq)
  then show ?thesis using d by (simp add: eq distinct_map)
qed

lemma groups_ok_partitioned:
  assumes "partition_ok env" and "current_ok st cur"
  shows "groups_ok st (partitioned env st cur)"
  using assms distinct_partitioned [of env cur st] members_partitioned [of env st cur]
  by (auto simp: groups_ok_def current_ok_def)

text \<open>
  When the partitioner never names a meshlet twice, every group consists of meshlets
  without parent at the moment it is processed; an invariant of the store that every such
  group keeps holds when the construction returns.
\<close>

lemma processGroups_invariant_roots:
  assumes step: "\<And>l n g st newly st' newly'.
      J st \<Longrightarrow>
      \<forall>a. Some a \<in> set g \<longrightarrow>
        a < length (allMeshlets st) \<and> parentBounds (allMeshlets st ! a) = None \<Longrightarrow>
      processGroup env l n g (st, newly) = Inr (st', newly') \<Longrightarrow> J st'"
    and "processGroups env l n gs (st, newly) = Inr (st', newly')"
    and "J st" and "groups_ok st gs"
  shows "J st'"
  using assms(2-)
proof (induction gs arbitrary: st newly)
  case Nil
  then show ?case by simp
next
  case (Cons g gs)
  from Cons.prems(1) obtain st1 newly1 where
    g: "processGroup env l n g (st, newly) = Inr (st1, newly1)" and
    gs: "processGroups env l n gs (st1, newly1) = Inr (st', newly')"
    by (auto split: sum.splits)
  have "\<forall>a. Some a \<in> set g \<longrightarrow>
      a < length (allMeshlets st) \<and> parentBounds (allMeshlets st ! a) = None"
    using Cons.prems(3) by (auto simp: groups_ok_def members_Cons)
  with Cons.prems(2) have "J st1" using g by (rule step)
  moreover have "groups_ok st1 gs"
    unfolding groups_ok_def
  proof (intro conjI ballI)
    show "distinct (concat (map somes gs))" using Cons.prems(3) by (simp add: groups_ok_def)
  next
    fix a assume a: "a \<in> members gs"
    then have old: "a < length (allMeshlets st)" "parentBounds (allMeshlets st ! a) = None"
      using Cons.prems(3) by (auto simp: groups_ok_def members_Cons)
    have "a \<notin> set (somes g)"
      using a Cons.prems(3) by (auto simp: groups_ok_def members_somes)
    then have "Some a \<notin> set g" by (simp add: set_somes)
    with old(1) have "allMeshlets st1 ! a = allMeshlets st ! a"
      using processGroup_frame(2) [OF g] by simp
    with old show "a < length (allMeshlets st1)"
      and "parentBounds (allMeshlets st1 ! a) = None"
      using processGroup_frame(1) [OF g] by simp_all
  qed
  ultimately show ?case using Cons.IH gs by blast
qed

lemma lodLoop_invariant_roots:
  assumes step: "\<And>l n g st newly st' newly'.
      J st \<Longrightarrow>
      \<forall>a. Some a \<in> set g \<longrightarrow>
        a < length (allMeshlets st) \<and> parentBounds (allMeshlets st ! a) = None \<Longrightarrow>
      processGroup env l n g (st, newly) = Inr (st', newly') \<Longrightarrow> J st'"
    and "partition_ok env"
    and "lodLoop env vc l cur st = Inr (l', cur', st')"
    and "J st" and "current_ok st cur"
  shows "J st'"
  using assms(3-)
proof (induction "MAX_LODS + 1 - l" arbitrary: l cur st)
  case 0
  from "0.prems"(1) show ?case
  proof (cases rule: lodLoop_Inr_cases)
    case stop
    with "0.prems" show ?thesis by simp
  next
    case (level st1 newly)
    with "0.hyps" show ?thesis by simp
  qed
next
  case (Suc k)
  from Suc.prems(1) show ?case
  proof (cases rule: lodLoop_Inr_cases)
    case stop
    with Suc.prems show ?thesis by simp
  next
    case (level st1 newly)
    have "groups_ok st (partitioned env st cur)"
      using assms(2) Suc.prems(3) by (rule groups_ok_partitioned)
    with step level(3) Suc.prems(2) have "J st1" by (rule processGroups_invariant_roots)
    moreover have "current_ok st1 newly"
      using level_fresh [OF level(3) Suc.prems(3)] by (rule fresh_current_ok)
    moreover have "k = MAX_LODS + 1 - (l + 1)" using Suc.hyps(2) by simp
    ultimately show ?thesis using Suc.hyps(1) level(5) by blast
  qed
qed

subsection \<open>Children carry the data of the meshlets created from them\<close>

lemma links_ok_bottom: "links_ok (bottomState env idx)"
  by (auto simp: links_ok_def bottomState_def dest: in_newMeshlets)

lemma processGroup_links_ok:
  assumes "links_ok st"
    and roots: "\<forall>a. Some a \<in> set g \<longrightarrow>
        a < length (allMeshlets st) \<and> parentBounds (allMeshlets st ! a) = None"
    and "processGroup env l n g (st, newly) = Inr (st', newly')"
  shows "links_ok st'"
  using assms(3)
proof (cases rule: processGroup_Inr_cases)
  case (stall cs)
  with assms(1) show ?thesis by (simp add: links_ok_def)
next
  case (ok cs)
  define E where "E = totalError env st cs"
  define B where "B = bounds env st cs"
  define news where "news = newMeshlets env l E cs B (NEXT_MESHLET_ID st) (newIndexLists env n st cs)"
  define ms where "ms = allMeshlets st"
  have st': "allMeshlets st' = setParents cs E B (ms @ news)"
    using ok(3) by (simp add: E_def B_def news_def ms_def)
  have cs: "\<forall>c\<in>set cs. c < length ms \<and> parentBounds (ms ! c) = None"
    using roots ok(1) by (auto simp: ms_def)
  have nth': "setParents cs E B (ms @ news) ! i =
      (if i \<in> set cs then withParent E B (ms ! i) else (ms @ news) ! i)"
    if "i < length ms + length news" for i
    using that cs by (auto simp: nth_setParents nth_append)
  show ?thesis
    unfolding links_ok_def st' all_set_conv_all_nth [of "setParents cs E B (ms @ news)"]
  proof (intro allI impI ballI)
    fix i c
    assume i: "i < length (setParents cs E B (ms @ news))"
      and c: "c \<in> set (createdFrom (setParents cs E B (ms @ news) ! i))"
    let ?p = "setParents cs E B (ms @ news) ! i"
    let ?q = "(ms @ news) ! i"
    from i have i': "i < length ms + length news" by simp
    have pq: "createdFrom ?p = createdFrom ?q" "maxSiblingsError ?p = maxSiblingsError ?q"
      "sharedSiblingsBounds ?p = sharedSiblingsBounds ?q"
      using i' by (simp_all add: nth_setParents withParent_def)
    show "c < length (setParents cs E B (ms @ news)) \<and>
        parentError (setParents cs E B (ms @ news) ! c) = maxSiblingsError ?p \<and>
        parentBounds (setParents cs E B (ms @ news) ! c) = Some (sharedSiblingsBounds ?p)"
    proof (cases "i < length ms")
      case True
      then have q: "?q = ms ! i" "ms ! i \<in> set ms" by (simp_all add: nth_append)
      with c pq have "c \<in> set (createdFrom (ms ! i))" by simp
      with assms(1) q(2) have old: "c < length ms"
        "parentError (ms ! c) = maxSiblingsError (ms ! i)"
        "parentBounds (ms ! c) = Some (sharedSiblingsBounds (ms ! i))"
        by (auto simp: links_ok_def ms_def)
      then have "c \<notin> set cs" using cs by auto
      with old pq q show ?thesis by (simp add: nth' nth_append)
    next
      case False
      with i' have "?q = news ! (i - length ms)" "news ! (i - length ms) \<in> set news"
        by (simp_all add: nth_append)
      then have q: "createdFrom ?q = cs" "maxSiblingsError ?q = E" "sharedSiblingsBounds ?q = B"
        using in_newMeshlets [of "news ! (i - length ms)" env l E cs B "NEXT_MESHLET_ID st"
            "newIndexLists env n st cs"]
        by (simp_all add: news_def)
      with c pq have "c \<in> set cs" by simp
      with cs have "c < length ms" by simp
      with \<open>c \<in> set cs\<close> pq q show ?thesis by (simp add: nth' withParent_def)
    qed
  qed
qed

lemma construction_links_ok:
  assumes "partition_ok env" and "construction env vc idx g = Inr (l, cur, st)"
  shows "links_ok st"
proof -
  have "lodLoop env vc 1 (bottomMeshlets env idx) (bottomState env idx) = Inr (l, cur, st)"
    using assms(2) by (simp add: construction_eq)
  with assms(1) show ?thesis
    using links_ok_bottom current_ok_bottom
    by (rule lodLoop_invariant_roots [where J = links_ok, rotated]) (rule processGroup_links_ok)
qed

subsection \<open>The states of a construction\<close>

lemma construction_reachable:
  assumes "construction env vc idx g = Inr (l, cur, st)"
  shows "reachable env idx st"
proof -
  have "lodLoop env vc 1 (bottomMeshlets env idx) (bottomState env idx) = Inr (l, cur, st)"
    using assms by (simp add: construction_eq)
  then have "reachable env idx st \<and> current_ok st cur"
    using reachable.bottom current_ok_bottom
    by (rule lodLoop_invariant [where J = "reachable env idx", rotated]) (rule reachable.group)
  then show ?thesis ..
qed

lemma reachable_store_ok: "reachable env idx st \<Longrightarrow> store_ok st"
  by (induction rule: reachable.induct) (auto intro: store_ok_bottom processGroup_store_ok)

lemma reachable_store_mono:
  assumes "nonneg_errors env" and "reachable env idx st"
  shows "store_mono st"
  using assms(2)
  by (induction rule: reachable.induct)
    (auto intro: store_mono_bottom processGroup_store_mono [OF assms(1)])

lemma reachable_ids_ok: "reachable env idx st \<Longrightarrow> ids_ok st"
  by (induction rule: reachable.induct) (auto intro: ids_ok_bottom processGroup_ids_ok)

subsection \<open>The last meshlet has no parent\<close>




subsection \<open>The example construction\<close>

lemma run0:
  obtains st where "construction env0 7 mesh0 42 = Inr (3, [7], st)"
    "length (allMeshlets st) = 8"
    "map isWIP_Root (allMeshlets st) = [False, False, False, False, True, False, False, True]"
proof -
  have "case construction env0 7 mesh0 42 of
          Inl e \<Rightarrow> False
        | Inr (l, cur, st) \<Rightarrow> l = 3 \<and> cur = [7] \<and> length (allMeshlets st) = 8 \<and>
            map isWIP_Root (allMeshlets st) =
              [False, False, False, False, True, False, False, True]"
    by code_simp
  then show ?thesis using that by (auto split: sum.splits)
qed

lemma own_fields:
  "maxSiblingsError (own m) = maxSiblingsError m"
  "sharedSiblingsBounds (own m) = sharedSiblingsBounds m"
  by (simp_all add: own_def)

lemma own_eq_fields:
  assumes "own m' = own m"
  shows "maxSiblingsError m' = maxSiblingsError m"
    and "sharedSiblingsBounds m' = sharedSiblingsBounds m"
  using assms own_fields by metis+

subsection \<open>The levels of a construction\<close>

lemma loopHead_lodLoop:
  "loopHead env idx l cur st \<Longrightarrow> lodLoop env vc l cur st = construction env vc idx g"
proof (induction rule: loopHead.induct)
  case first
  show ?case by (simp add: construction_eq)
next
  case (later l cur st st1 newly)
  have "lodLoop env vc l cur st = lodLoop env vc (l + 1) newly st1"
    using later.hyps(2-5) by (subst lodLoop.simps) auto
  with later.IH show ?case by simp
qed

lemma loopHead_current_ok: "loopHead env idx l cur st \<Longrightarrow> current_ok st cur"
proof (induction rule: loopHead.induct)
  case first
  show ?case by (rule current_ok_bottom)
next
  case (later l cur st st1 newly)
  from level_fresh [OF later.hyps(4) later.IH] show ?case by (rule fresh_current_ok)
qed

lemma processGroups_append:
  "processGroups env l n (gs1 @ gs2) acc =
     (case processGroups env l n gs1 acc of
        Inl e \<Rightarrow> Inl e
      | Inr acc' \<Rightarrow> processGroups env l n gs2 acc')"
  by (induction gs1 arbitrary: acc) (auto split: sum.splits)

text \<open>What a group computes depends on the store only through the records of its members.\<close>

lemma group_cong:
  assumes "\<forall>c\<in>set cs. allMeshlets st' ! c = allMeshlets st ! c"
  shows "megaMeshlet st' cs = megaMeshlet st cs"
    and "simplifiedMesh env st' cs = simplifiedMesh env st cs"
    and "simplificationUnsuccessful env st' cs = simplificationUnsuccessful env st cs"
    and "totalError env st' cs = totalError env st cs"
    and "bounds env st' cs = bounds env st cs"
proof -
  have m: "map (\<lambda>c. allMeshlets st' ! c) cs = map (\<lambda>c. allMeshlets st ! c) cs"
    using assms by simp
  show 1: "megaMeshlet st' cs = megaMeshlet st cs"
    unfolding megaMeshlet_def m ..
  then show 2: "simplifiedMesh env st' cs = simplifiedMesh env st cs"
    by (simp add: simplifiedMesh_def)
  from 1 2 show "simplificationUnsuccessful env st' cs = simplificationUnsuccessful env st cs"
    by (simp add: simplificationUnsuccessful_def trianglesAfter_def trianglesBefore_def)
  have e: "map (\<lambda>c. maxSiblingsError (allMeshlets st' ! c)) cs =
      map (\<lambda>c. maxSiblingsError (allMeshlets st ! c)) cs"
    using assms by simp
  show "totalError env st' cs = totalError env st cs"
    unfolding totalError_def errorNow_def childrenError_def e 2 ..
  from 1 show "bounds env st' cs = bounds env st cs" by (simp add: bounds_def)
qed

text \<open>
  A group of a level, in a level that is processed to its end: the members are meshlets
  without parent at the head of the loop, they are as they were when the group is
  processed, and the groups processed after it do not change them.
\<close>

lemma level_group_split:
  assumes "partition_ok env" and "current_ok st cur"
    and "processGroups env l n (partitioned env st cur) (st, []) = Inr (st1, newly)"
    and "map Some cs \<in> set (partitioned env st cur)"
  obtains sta na stb nb where
    "\<forall>c\<in>set cs. c < length (allMeshlets st) \<and> parentBounds (allMeshlets st ! c) = None"
    "\<forall>c\<in>set cs. allMeshlets sta ! c = allMeshlets st ! c"
    "processGroup env l n (map Some cs) (sta, na) = Inr (stb, nb)"
    "length (allMeshlets st) \<le> length (allMeshlets sta)"
    "\<forall>c\<in>set cs. allMeshlets st1 ! c = allMeshlets stb ! c"
    "set newly \<subseteq> {length (allMeshlets st) ..< length (allMeshlets st1)}"
proof -
  from assms(4) obtain pre post where
    split: "partitioned env st cur = pre @ map Some cs # post"
    by (auto simp: in_set_conv_decomp)
  have ok: "groups_ok st (partitioned env st cur)"
    using assms(1,2) by (rule groups_ok_partitioned)
  then have d: "distinct (concat (map somes pre) @ cs @ concat (map somes post))"
    by (simp add: groups_ok_def split)
  have mem: "set cs \<subseteq> members (partitioned env st cur)"
    by (auto simp: split members_def)
  have roots: "\<forall>c\<in>set cs. c < length (allMeshlets st) \<and> parentBounds (allMeshlets st ! c) = None"
    using ok mem by (auto simp: groups_ok_def)
  have nopre: "\<forall>c\<in>set cs. c \<notin> members pre" using d by (auto simp: members_somes)
  have nopost: "\<forall>c\<in>set cs. c \<notin> members post" using d by (auto simp: members_somes)
  from assms(3) obtain sta na where
    pre: "processGroups env l n pre (st, []) = Inr (sta, na)" and
    rest: "processGroups env l n (map Some cs # post) (sta, na) = Inr (st1, newly)"
    by (auto simp: split processGroups_append split: sum.splits)
  from rest obtain stb nb where
    g: "processGroup env l n (map Some cs) (sta, na) = Inr (stb, nb)" and
    post: "processGroups env l n post (stb, nb) = Inr (st1, newly)"
    by (auto split: sum.splits)
  note fpre = processGroups_frame [OF pre]
  note fg = processGroup_frame [OF g]
  note fpost = processGroups_frame [OF post]
  note fall = processGroups_frame [OF assms(3)]
  have a: "\<forall>c\<in>set cs. allMeshlets sta ! c = allMeshlets st ! c"
    using fpre roots nopre by simp
  have b: "\<forall>c\<in>set cs. allMeshlets st1 ! c = allMeshlets stb ! c"
  proof
    fix c assume c: "c \<in> set cs"
    with roots have "c < length (allMeshlets st)" by simp
    with fpre fg(1) have "c < length (allMeshlets stb)" by linarith
    with fpost nopost c show "allMeshlets st1 ! c = allMeshlets stb ! c" by simp
  qed
  have n: "set newly \<subseteq> {length (allMeshlets st) ..< length (allMeshlets st1)}"
    using fall by simp
  from roots a g fpre b n show ?thesis by (intro that [of sta na stb nb]) simp_all
qed

text \<open>The members of a group that stalls are what they were, when the construction returns.\<close>

lemma stalled_group_members_final:
  assumes "partition_ok env" and "loopHead env idx l cur st"
    and "construction env vc idx g = Inr (lf, curf, stf)"
    and "map Some cs \<in> set (partitioned env st cur)"
    and "simplificationUnsuccessful env st cs"
    and "c \<in> set cs"
  shows "allMeshlets stf ! c = allMeshlets st ! c \<and> parentBounds (allMeshlets st ! c) = None"
proof -
  have cur: "current_ok st cur" using assms(2) by (rule loopHead_current_ok)
  have "Some c \<in> set (map Some cs)" using assms(6) by simp
  with assms(4) have "c \<in> members (partitioned env st cur)"
    unfolding members_def by blast
  then have "c \<in> set cur" using members_partitioned by blast
  with cur have root: "parentBounds (allMeshlets st ! c) = None" by (simp add: current_ok_def)
  have loop: "lodLoop env vc l cur st = Inr (lf, curf, stf)"
    using loopHead_lodLoop [OF assms(2)] assms(3) by simp
  then show ?thesis
  proof (cases rule: lodLoop_Inr_cases)
    case stop
    with root show ?thesis by simp
  next
    case (level st1 newly)
    from assms(1) cur level(3) assms(4) obtain sta na stb nb where
      s: "\<forall>c\<in>set cs. c < length (allMeshlets st) \<and> parentBounds (allMeshlets st ! c) = None"
        "\<forall>c\<in>set cs. allMeshlets sta ! c = allMeshlets st ! c"
        "processGroup env l (length (partitioned env st cur)) (map Some cs) (sta, na) = Inr (stb, nb)"
        "length (allMeshlets st) \<le> length (allMeshlets sta)"
        "\<forall>c\<in>set cs. allMeshlets st1 ! c = allMeshlets stb ! c"
        "set newly \<subseteq> {length (allMeshlets st) ..< length (allMeshlets st1)}"
      by (rule level_group_split)
    have "simplificationUnsuccessful env sta cs"
      using assms(5) by (simp add: group_cong(3) [OF s(2)])
    then have "allMeshlets stb = allMeshlets sta"
      using s(3) by (auto simp: processGroup_stall those_Some_iff)
    with s(2,5) assms(6) have 1: "allMeshlets st1 ! c = allMeshlets st ! c" by simp
    have c: "c < length (allMeshlets st)" using s(1) assms(6) by simp
    then have "c \<notin> set newly" using s(6) by auto
    moreover have "c < length (allMeshlets st1)" using c s(6) processGroups_frame [OF level(3)] by simp
    ultimately have "allMeshlets stf ! c = allMeshlets st1 ! c"
      using lodLoop_frame [OF level(5)] by simp
    with 1 root show ?thesis by simp
  qed
qed

text \<open>
  The members of a group that survives have no parent at the head of the loop and carry
  the data of the group when the construction returns.
\<close>

lemma surviving_group_members_final:
  assumes "partition_ok env" and "loopHead env idx l cur st"
    and "construction env vc idx g = Inr (lf, curf, stf)"
    and "map Some cs \<in> set (partitioned env st cur)"
    and "\<not> simplificationUnsuccessful env st cs"
    and "l < MAX_LODS + 1" and "2 \<le> length cur"
    and "c \<in> set cs"
  shows "parentBounds (allMeshlets st ! c) = None \<and>
         allMeshlets stf ! c = withParent (totalError env st cs) (bounds env st cs) (allMeshlets st ! c)"
proof -
  have cur: "current_ok st cur" using assms(2) by (rule loopHead_current_ok)
  have loop: "lodLoop env vc l cur st = Inr (lf, curf, stf)"
    using loopHead_lodLoop [OF assms(2)] assms(3) by simp
  then show ?thesis
  proof (cases rule: lodLoop_Inr_cases)
    case stop
    with assms(6,7) show ?thesis by simp
  next
    case (level st1 newly)
    from assms(1) cur level(3) assms(4) obtain sta na stb nb where
      s: "\<forall>c\<in>set cs. c < length (allMeshlets st) \<and> parentBounds (allMeshlets st ! c) = None"
        "\<forall>c\<in>set cs. allMeshlets sta ! c = allMeshlets st ! c"
        "processGroup env l (length (partitioned env st cur)) (map Some cs) (sta, na) = Inr (stb, nb)"
        "length (allMeshlets st) \<le> length (allMeshlets sta)"
        "\<forall>c\<in>set cs. allMeshlets st1 ! c = allMeshlets stb ! c"
        "set newly \<subseteq> {length (allMeshlets st) ..< length (allMeshlets st1)}"
      by (rule level_group_split)
    note gc = group_cong [OF s(2)]
    have c: "c < length (allMeshlets st)" using s(1) assms(8) by simp
    then have ca: "c < length (allMeshlets sta)" using s(4) by simp
    have "\<not> simplificationUnsuccessful env sta cs" using assms(5) by (simp add: gc(3))
    then have "allMeshlets stb ! c =
        withParent (totalError env sta cs) (bounds env sta cs) (allMeshlets sta ! c)"
      using s(3) ca assms(8)
      by (auto simp: processGroup_ok those_Some_iff nth_setParents nth_append)
    then have "allMeshlets stb ! c =
        withParent (totalError env st cs) (bounds env st cs) (allMeshlets st ! c)"
      using s(2) assms(8) by (simp add: gc(4,5))
    with s(5) assms(8) have 1: "allMeshlets st1 ! c =
        withParent (totalError env st cs) (bounds env st cs) (allMeshlets st ! c)"
      by simp
    have "c \<notin> set newly" using c s(6) by auto
    moreover have "c < length (allMeshlets st1)" using c processGroups_frame [OF level(3)] by simp
    ultimately have "allMeshlets stf ! c = allMeshlets st1 ! c"
      using lodLoop_frame [OF level(5)] by simp
    with 1 s(1) assms(8) show ?thesis by simp
  qed
qed

lemma loopHead_reachable: "loopHead env idx l cur st \<Longrightarrow> reachable env idx st"
proof (induction rule: loopHead.induct)
  case first
  show ?case by (rule reachable.bottom)
next
  case (later l cur st st1 newly)
  have "current_ok st cur" using later.hyps(1) by (rule loopHead_current_ok)
  then have "members (partitioned env st cur) \<subseteq> {..<length (allMeshlets st)}"
    using members_partitioned [of env st cur] by (auto simp: current_ok_def)
  with reachable.group later.hyps(4) later.IH show ?case
    by (rule processGroups_invariant [where J = "reachable env idx"])
qed

lemma level0:
  "loopHead env0 mesh0 1 (bottomMeshlets env0 mesh0) (bottomState env0 mesh0)"
  "partitioned env0 (bottomState env0 mesh0) (bottomMeshlets env0 mesh0)
     = [map Some [0, 1, 2, 3], map Some [4]]"
  "partition_ok env0"
proof -
  show "loopHead env0 mesh0 1 (bottomMeshlets env0 mesh0) (bottomState env0 mesh0)"
    by (rule loopHead.first)
  show "partitioned env0 (bottomState env0 mesh0) (bottomMeshlets env0 mesh0)
     = [map Some [0, 1, 2, 3], map Some [4]]"
    by code_simp
  show "partition_ok env0" by (simp add: partition_ok_def env0_def)
qed

subsection \<open>The errors of a construction\<close>






subsection \<open>The list of drawn meshlets\<close>

lemma length_arrayStore [simp]: "length (arrayStore lst i v) = length lst"
  by (simp add: arrayStore_def)

lemma unat_arrayLength: "length lst < 2 ^ 32 \<Longrightarrow> unat (arrayLength lst) = length lst"
  by (simp add: arrayLength_def unat_of_nat)

lemma unat_softwareSlot:
  assumes "length lst < 2 ^ 32" "unat j < length lst"
  shows "unat (softwareSlot lst j) = length lst - 1 - unat j"
proof -
  have 1: "unat (arrayLength lst) = length lst" using assms(1) by (rule unat_arrayLength)
  have "(1::u32) \<le> arrayLength lst" using 1 assms(2) by (simp add: word_le_nat_alt)
  then have 2: "unat (arrayLength lst - 1) = length lst - 1" using 1 by (simp add: unat_sub)
  have "j \<le> arrayLength lst - 1" using 2 assms(2) by (simp add: word_le_nat_alt)
  then have "unat (arrayLength lst - 1 - j) = length lst - 1 - unat j"
    using 2 by (simp add: unat_sub)
  then show ?thesis by (simp add: softwareSlot_def Let_def)
qed

lemma softwareSlot_list_update [simp]: "softwareSlot (lst[k := v]) j = softwareSlot lst j"
  by (simp add: softwareSlot_def arrayLength_def)

lemma softwareSlot_arrayStore [simp]: "softwareSlot (arrayStore lst i v) j = softwareSlot lst j"
  by (simp add: softwareSlot_def arrayLength_def)

subsection \<open>The two adjacency strategies\<close>

lemma edgeKey_eq_iff: "edgeKey e1 = edgeKey e2 \<longleftrightarrow> isSameEdge e1 e2"
  by (cases e1; cases e2) (auto simp: edgeKey_def isSameEdge_def min_def max_def)

lemma isSameEdge_sym: "isSameEdge e1 e2 \<longleftrightarrow> isSameEdge e2 e1"
  by (cases e1; cases e2) (auto simp: isSameEdge_def)

lemma hasMeshlet_addEdges:
  "hasMeshlet (addEdges i es m) k j \<longleftrightarrow>
     hasMeshlet m k j \<or> (j = i \<and> (\<exists>e\<in>set es. edgeKey e = k))"
proof (induction es arbitrary: m)
  case Nil
  then show ?case by simp
next
  case (Cons e es)
  show ?case
    by (simp add: Cons.IH) (auto simp: hasMeshlet_def split: option.splits)
qed

lemma hasMeshlet_buildEdgeMap:
  "hasMeshlet (buildEdgeMap i0 ess m) k j \<longleftrightarrow>
     hasMeshlet m k j \<or>
     (i0 \<le> j \<and> j < i0 + length ess \<and> (\<exists>e\<in>set (ess ! (j - i0)). edgeKey e = k))"
proof (induction ess arbitrary: i0 m)
  case Nil
  then show ?case by auto
next
  case (Cons es ess)
  have step: "hasMeshlet (buildEdgeMap i0 (es # ess) m) k j \<longleftrightarrow>
      hasMeshlet m k j \<or> (j = i0 \<and> (\<exists>e\<in>set es. edgeKey e = k)) \<or>
      (Suc i0 \<le> j \<and> j < Suc i0 + length ess \<and>
       (\<exists>e\<in>set (ess ! (j - Suc i0)). edgeKey e = k))"
    by (simp add: Cons.IH hasMeshlet_addEdges)
  show ?case
  proof (cases "i0 < j")
    case True
    then have "(es # ess) ! (j - i0) = ess ! (j - Suc i0)" by (simp add: nth_Cons')
    with True show ?thesis unfolding step by auto
  next
    case False
    then show ?thesis unfolding step by auto
  qed
qed

lemma hasMeshlet_empty [simp]: "\<not> hasMeshlet Map.empty k j"
  by (simp add: hasMeshlet_def)

lemma sharedEdges_Map_eq_Iter:
  assumes "j < length ess"
  shows "sharedEdges_Map (buildEdgeMap 0 ess Map.empty) es1 j = sharedEdges_Iter es1 (ess ! j)"
proof -
  have "hasMeshlet (buildEdgeMap 0 ess Map.empty) (edgeKey e1) j \<longleftrightarrow>
      (\<exists>e2\<in>set (ess ! j). isSameEdge e1 e2)" for e1
    using assms isSameEdge_sym by (auto simp: hasMeshlet_buildEdgeMap edgeKey_eq_iff)
  then show ?thesis by (simp add: sharedEdges_Map_def sharedEdges_Iter_def)
qed

lemma adjacencyOf_cong:
  assumes "\<And>i j. i < n \<Longrightarrow> j < n \<Longrightarrow> w i j = w' i j"
  shows "adjacencyOf w n = adjacencyOf w' n"
  unfolding adjacencyOf_def
  by (intro map_cong arg_cong [where f = "filter _"] refl) (simp_all add: assms)

lemma findAdjacentMeshlets_Map_eq_Iter:
  "findAdjacentMeshlets_Map ess = findAdjacentMeshlets_Iter ess"
  unfolding findAdjacentMeshlets_Map_def findAdjacentMeshlets_Iter_def Let_def
  by (rule adjacencyOf_cong) (simp add: sharedEdges_Map_eq_Iter)

section \<open>The claims\<close>

text \<open>
  Claim C1. Provided the simplifier reports a non-negative error (\<open>error * errorScale\<close>),
  in every store the construction goes through between two groups, and in the meshlets it
  returns: a meshlet is a root exactly when \<open>parentBounds\<close> is undefined, which is exactly
  when \<open>parentError\<close> is \<open>Infinity\<close>; and \<open>parentError\<close> is at least the meshlet's own error
  \<open>maxSiblingsError\<close> (for a meshlet without parent because \<open>parentError\<close> is infinite, for one
  with a parent because the parent's error adds to the largest error of the group).
\<close>

theorem parent_error_and_roots:
  assumes "nonneg_errors env"
    and "reachable env idx st \<and> ms = allMeshlets st \<or>
         createNaniteMeshlets env vc idx g = Inr ms"
    and "m \<in> set ms"
  shows "(isWIP_Root m \<longleftrightarrow> parentBounds m = None) \<and>
         (parentBounds m = None \<longleftrightarrow> parentError m = Infinity) \<and>
         num_le (maxSiblingsError m) (parentError m)"
proof -
  from assms(2) obtain st' where st': "reachable env idx st'" "ms = allMeshlets st'"
    by (auto simp: createNaniteMeshlets_def split: sum.splits dest: construction_reachable)
  have "store_ok st'" using st'(1) by (rule reachable_store_ok)
  moreover have "store_mono st'" using assms(1) st'(1) by (rule reachable_store_mono)
  ultimately show ?thesis
    using assms(3) st'(2) by (simp add: store_ok_def store_mono_def meshlet_ok_def isWIP_Root_def)
qed

theorem parent_error_and_roots_witness:
  "nonneg_errors env0 \<and>
   \<not> isl (createNaniteMeshlets env0 7 mesh0 42) \<and>
   length (projr (createNaniteMeshlets env0 7 mesh0 42)) = 8 \<and>
   list_all (\<lambda>m. (isWIP_Root m \<longleftrightarrow> parentBounds m = None) \<and>
                 (parentBounds m = None \<longleftrightarrow> parentError m = Infinity) \<and>
                 num_le (maxSiblingsError m) (parentError m))
     (projr (createNaniteMeshlets env0 7 mesh0 42))"
proof -
  obtain st where st: "construction env0 7 mesh0 42 = Inr (3, [7], st)"
    "length (allMeshlets st) = 8"
    by (rule run0)
  have nn: "nonneg_errors env0" by (simp add: nonneg_errors_def env0_def)
  have r: "createNaniteMeshlets env0 7 mesh0 42 = Inr (allMeshlets st)"
    using st(1) by (simp add: createNaniteMeshlets_def)
  from parent_error_and_roots [OF nn disjI2 [OF r]]
  have "\<forall>m\<in>set (allMeshlets st).
      (isWIP_Root m \<longleftrightarrow> parentBounds m = None) \<and>
      (parentBounds m = None \<longleftrightarrow> parentError m = Infinity) \<and>
      num_le (maxSiblingsError m) (parentError m)"
    by blast
  then show ?thesis using nn r st(2) by (simp add: list_all_iff)
qed




text \<open>
  Claim C3. When the simplification factor of a group (triangles after / triangles
  before) exceeds the requirement of 0.97, the group creates no meshlet and changes no
  meshlet: the only effect is a warning that carries the level and the triangle counts
  before and after. The construction goes on with the remaining groups of the level
  exactly as it would from that store, so the stall by itself raises nothing. In a
  construction that returns, with a partitioner that names no meshlet twice, the members of
  a group that stalls at some level are without parent at the head of that level and are
  returned unchanged: \<open>parentBounds\<close> undefined and \<open>parentError\<close> infinite.
\<close>

theorem stalled_group_is_abandoned:
  assumes "simplificationUnsuccessful env st cs"
  shows "processGroup env l n (map Some cs) (st, newly) =
           Inr (st\<lparr> warnings := warnings st @
                     [CouldNotSimplify l (trianglesBefore st cs) (trianglesAfter env st cs)] \<rparr>,
                newly) \<and>
         finishLevel env vc l n (map Some cs # rest) (st, newly) =
           finishLevel env vc l n rest
             (st\<lparr> warnings := warnings st @
                     [CouldNotSimplify l (trianglesBefore st cs) (trianglesAfter env st cs)] \<rparr>,
              newly) \<and>
         (partition_ok env \<longrightarrow>
            (\<forall>idx l0 cur vc' g lf curf stf.
               loopHead env idx l0 cur st \<and>
               map Some cs \<in> set (partitioned env st cur) \<and>
               construction env vc' idx g = Inr (lf, curf, stf) \<longrightarrow>
               (\<forall>c\<in>set cs.
                  allMeshlets stf ! c = allMeshlets st ! c \<and>
                  isWIP_Root (allMeshlets stf ! c) \<and>
                  parentBounds (allMeshlets stf ! c) = None \<and>
                  parentError (allMeshlets stf ! c) = Infinity)))"
proof -
  let ?st1 = "st\<lparr> warnings := warnings st @
      [CouldNotSimplify l (trianglesBefore st cs) (trianglesAfter env st cs)] \<rparr>"
  have 1: "processGroup env l n (map Some cs) (st, newly) = Inr (?st1, newly)"
    using assms by (simp add: processGroup_stall those_Some_iff stallWarning_def)
  then have 2: "finishLevel env vc l n (map Some cs # rest) (st, newly) =
      finishLevel env vc l n rest (?st1, newly)"
    by (simp add: finishLevel_Cons)
  have 3: "allMeshlets stf ! c = allMeshlets st ! c \<and>
      isWIP_Root (allMeshlets stf ! c) \<and>
      parentBounds (allMeshlets stf ! c) = None \<and>
      parentError (allMeshlets stf ! c) = Infinity"
    if "partition_ok env" "loopHead env idx l0 cur st"
      "map Some cs \<in> set (partitioned env st cur)"
      "construction env vc' idx g = Inr (lf, curf, stf)" "c \<in> set cs"
    for idx l0 cur vc' g lf curf stf c
  proof -
    have f: "allMeshlets stf ! c = allMeshlets st ! c"
      "parentBounds (allMeshlets st ! c) = None"
      using stalled_group_members_final [OF that(1,2,4,3) assms that(5)] by simp_all
    have "Some c \<in> set (map Some cs)" using that(5) by simp
    with that(3) have "c \<in> members (partitioned env st cur)" unfolding members_def by blast
    then have "c \<in> set cur" using members_partitioned by blast
    then have "c < length (allMeshlets st)"
      using loopHead_current_ok [OF that(2)] by (simp add: current_ok_def)
    then have "allMeshlets st ! c \<in> set (allMeshlets st)" by simp
    moreover have "store_ok st"
      using that(2) by (intro reachable_store_ok loopHead_reachable)
    ultimately have "meshlet_ok (allMeshlets st ! c)" by (simp add: store_ok_def)
    with f show ?thesis by (simp add: meshlet_ok_def isWIP_Root_def)
  qed
  from 1 2 3 show ?thesis by blast
qed

theorem stalled_group_is_abandoned_witness:
  "simplificationUnsuccessful env0 (bottomState env0 mesh0) [4] \<and>
   partition_ok env0 \<and>
   processGroup env0 1 2 [Some 4] (bottomState env0 mesh0, [5, 6]) =
     Inr ((bottomState env0 mesh0)\<lparr> warnings := [CouldNotSimplify 1 1 1] \<rparr>, [5, 6]) \<and>
   \<not> isl (createNaniteMeshlets env0 7 mesh0 42) \<and>
   projr (createNaniteMeshlets env0 7 mesh0 42) ! 4 = allMeshlets (bottomState env0 mesh0) ! 4 \<and>
   isWIP_Root (projr (createNaniteMeshlets env0 7 mesh0 42) ! 4) \<and>
   parentError (projr (createNaniteMeshlets env0 7 mesh0 42) ! 4) = Infinity"
proof -
  have s: "simplificationUnsuccessful env0 (bottomState env0 mesh0) [4]" by code_simp
  have w: "trianglesBefore (bottomState env0 mesh0) [4] = 1"
    "trianglesAfter env0 (bottomState env0 mesh0) [4] = 1"
    "warnings (bottomState env0 mesh0) = []"
    by code_simp+
  obtain st where st: "construction env0 7 mesh0 42 = Inr (3, [7], st)"
    by (rule run0)
  then have r: "createNaniteMeshlets env0 7 mesh0 42 = Inr (allMeshlets st)"
    by (simp add: createNaniteMeshlets_def)
  have m: "map Some [4] \<in> set (partitioned env0 (bottomState env0 mesh0) (bottomMeshlets env0 mesh0))"
    unfolding level0(2) by simp
  note t = stalled_group_is_abandoned [OF s, where l = 1 and n = 2 and newly = "[5, 6]"]
  from t w have 1: "processGroup env0 1 2 [Some 4] (bottomState env0 mesh0, [5, 6]) =
     Inr ((bottomState env0 mesh0)\<lparr> warnings := [CouldNotSimplify 1 1 1] \<rparr>, [5, 6])"
    by simp
  from t level0(3) level0(1) m st
  have "\<forall>c\<in>set [4]. allMeshlets st ! c = allMeshlets (bottomState env0 mesh0) ! c \<and>
      isWIP_Root (allMeshlets st ! c) \<and>
      parentBounds (allMeshlets st ! c) = None \<and>
      parentError (allMeshlets st ! c) = Infinity"
    by blast
  moreover have "(4::nat) \<in> set [4]" by simp
  ultimately have 2: "allMeshlets st ! 4 = allMeshlets (bottomState env0 mesh0) ! 4"
    and 3: "isWIP_Root (allMeshlets st ! 4)"
    and 4: "parentError (allMeshlets st ! 4) = Infinity"
    by blast+
  have "projr (createNaniteMeshlets env0 7 mesh0 42) = allMeshlets st" using r by simp
  with s level0(3) 1 r 2 3 4 show ?thesis by (simp only: sum.disc simp_thms)
qed

text \<open>
  Claim C4. When a group of existing meshlets survives simplification, the group step
  gives every child the same \<open>parentError = error * errorScale + max (maxSiblingsError of the
  children)\<close> and the same \<open>parentBounds\<close>, the bounding sphere of the merged index buffer,
  and leaves the child's own \<open>maxSiblingsError\<close> and \<open>sharedSiblingsBounds\<close> as they were. In a
  construction that returns, with a partitioner that names no meshlet twice, every member
  of a group that survives at some level is without parent at the head of that level (the
  two fields have not been assigned before) and is returned with exactly the error and the
  bounds of its group (they have not been overwritten), its own error and bounds unchanged.
\<close>

theorem parent_data_of_surviving_group:
  assumes "\<not> simplificationUnsuccessful env st cs"
  shows "((\<forall>c\<in>set cs. c < length (allMeshlets st)) \<longrightarrow>
          (\<exists>st1 newly1.
             processGroup env l n (map Some cs) (st, newly) = Inr (st1, newly1) \<and>
             (\<forall>c\<in>set cs.
                parentError (allMeshlets st1 ! c) =
                  add_fin (error (simplifiedMesh env st cs) * errorScale (simplifiedMesh env st cs))
                    (Math_max (map (\<lambda>c. maxSiblingsError (allMeshlets st ! c)) cs)) \<and>
                parentBounds (allMeshlets st1 ! c) = Some (calculateBounds env (megaMeshlet st cs)) \<and>
                maxSiblingsError (allMeshlets st1 ! c) = maxSiblingsError (allMeshlets st ! c) \<and>
                sharedSiblingsBounds (allMeshlets st1 ! c) =
                  sharedSiblingsBounds (allMeshlets st ! c)))) \<and>
         (partition_ok env \<longrightarrow>
            (\<forall>idx l0 cur vc g lf curf stf.
               loopHead env idx l0 cur st \<and> l0 < MAX_LODS + 1 \<and> 2 \<le> length cur \<and>
               map Some cs \<in> set (partitioned env st cur) \<and>
               construction env vc idx g = Inr (lf, curf, stf) \<longrightarrow>
               (\<forall>c\<in>set cs.
                  parentBounds (allMeshlets st ! c) = None \<and>
                  parentError (allMeshlets st ! c) = Infinity \<and>
                  parentError (allMeshlets stf ! c) =
                    add_fin (error (simplifiedMesh env st cs) * errorScale (simplifiedMesh env st cs))
                      (Math_max (map (\<lambda>c. maxSiblingsError (allMeshlets st ! c)) cs)) \<and>
                  parentBounds (allMeshlets stf ! c) = Some (calculateBounds env (megaMeshlet st cs)) \<and>
                  maxSiblingsError (allMeshlets stf ! c) = maxSiblingsError (allMeshlets st ! c) \<and>
                  sharedSiblingsBounds (allMeshlets stf ! c) =
                    sharedSiblingsBounds (allMeshlets st ! c))))"
proof -
  have E: "totalError env st cs =
      add_fin (error (simplifiedMesh env st cs) * errorScale (simplifiedMesh env st cs))
        (Math_max (map (\<lambda>c. maxSiblingsError (allMeshlets st ! c)) cs))"
    by (simp add: totalError_def errorNow_def childrenError_def)
  have B: "bounds env st cs = calculateBounds env (megaMeshlet st cs)"
    by (simp add: bounds_def)
  have 1: "\<exists>st1 newly1.
      processGroup env l n (map Some cs) (st, newly) = Inr (st1, newly1) \<and>
      (\<forall>c\<in>set cs.
         parentError (allMeshlets st1 ! c) =
           add_fin (error (simplifiedMesh env st cs) * errorScale (simplifiedMesh env st cs))
             (Math_max (map (\<lambda>c. maxSiblingsError (allMeshlets st ! c)) cs)) \<and>
         parentBounds (allMeshlets st1 ! c) = Some (calculateBounds env (megaMeshlet st cs)) \<and>
         maxSiblingsError (allMeshlets st1 ! c) = maxSiblingsError (allMeshlets st ! c) \<and>
         sharedSiblingsBounds (allMeshlets st1 ! c) =
           sharedSiblingsBounds (allMeshlets st ! c))"
    if valid: "\<forall>c\<in>set cs. c < length (allMeshlets st)"
  proof -
    define st1 where "st1 =
      st\<lparr> NEXT_MESHLET_ID := NEXT_MESHLET_ID st + length (newIndexLists env n st cs),
          allMeshlets :=
            setParents cs (totalError env st cs) (bounds env st cs)
              (allMeshlets st @
               newMeshlets env l (totalError env st cs) cs (bounds env st cs)
                 (NEXT_MESHLET_ID st) (newIndexLists env n st cs)) \<rparr>"
    have step: "processGroup env l n (map Some cs) (st, newly) =
        Inr (st1, newly @ [length (allMeshlets st) ..<
                           length (allMeshlets st) + length (newIndexLists env n st cs)])"
      using assms by (simp add: processGroup_ok those_Some_iff st1_def)
    have "allMeshlets st1 ! c =
        withParent (totalError env st cs) (bounds env st cs) (allMeshlets st ! c)"
      if "c \<in> set cs" for c
    proof -
      have "c < length (allMeshlets st)" using that valid by simp
      with that show ?thesis by (simp add: st1_def nth_setParents nth_append)
    qed
    then have "\<forall>c\<in>set cs.
        parentError (allMeshlets st1 ! c) =
          add_fin (error (simplifiedMesh env st cs) * errorScale (simplifiedMesh env st cs))
            (Math_max (map (\<lambda>c. maxSiblingsError (allMeshlets st ! c)) cs)) \<and>
        parentBounds (allMeshlets st1 ! c) = Some (calculateBounds env (megaMeshlet st cs)) \<and>
        maxSiblingsError (allMeshlets st1 ! c) = maxSiblingsError (allMeshlets st ! c) \<and>
        sharedSiblingsBounds (allMeshlets st1 ! c) = sharedSiblingsBounds (allMeshlets st ! c)"
      by (simp add: withParent_def E B)
    with step show ?thesis by blast
  qed
  have 2: "parentBounds (allMeshlets st ! c) = None \<and>
      parentError (allMeshlets st ! c) = Infinity \<and>
      parentError (allMeshlets stf ! c) =
        add_fin (error (simplifiedMesh env st cs) * errorScale (simplifiedMesh env st cs))
          (Math_max (map (\<lambda>c. maxSiblingsError (allMeshlets st ! c)) cs)) \<and>
      parentBounds (allMeshlets stf ! c) = Some (calculateBounds env (megaMeshlet st cs)) \<and>
      maxSiblingsError (allMeshlets stf ! c) = maxSiblingsError (allMeshlets st ! c) \<and>
      sharedSiblingsBounds (allMeshlets stf ! c) = sharedSiblingsBounds (allMeshlets st ! c)"
    if "partition_ok env" "loopHead env idx l0 cur st" "l0 < MAX_LODS + 1" "2 \<le> length cur"
      "map Some cs \<in> set (partitioned env st cur)"
      "construction env vc idx g = Inr (lf, curf, stf)" "c \<in> set cs"
    for idx l0 cur vc g lf curf stf c
  proof -
    have f: "parentBounds (allMeshlets st ! c) = None"
      "allMeshlets stf ! c =
         withParent (totalError env st cs) (bounds env st cs) (allMeshlets st ! c)"
      using surviving_group_members_final [OF that(1,2,6,5) assms that(3,4,7)] by simp_all
    have "Some c \<in> set (map Some cs)" using that(7) by simp
    with that(5) have "c \<in> members (partitioned env st cur)" unfolding members_def by blast
    then have "c \<in> set cur" using members_partitioned by blast
    then have "c < length (allMeshlets st)"
      using loopHead_current_ok [OF that(2)] by (simp add: current_ok_def)
    then have "allMeshlets st ! c \<in> set (allMeshlets st)" by simp
    moreover have "store_ok st"
      using that(2) by (intro reachable_store_ok loopHead_reachable)
    ultimately have "meshlet_ok (allMeshlets st ! c)" by (simp add: store_ok_def)
    with f(1) have "parentError (allMeshlets st ! c) = Infinity" by (simp add: meshlet_ok_def)
    with f show ?thesis by (simp add: withParent_def E B)
  qed
  from 1 2 show ?thesis by blast
qed

theorem parent_data_of_surviving_group_witness:
  "\<not> simplificationUnsuccessful env0 (bottomState env0 mesh0) [0, 1, 2, 3] \<and>
   partition_ok env0 \<and>
   \<not> isl (processGroup env0 1 2 [Some 0, Some 1, Some 2, Some 3] (bottomState env0 mesh0, [])) \<and>
   \<not> isl (createNaniteMeshlets env0 7 mesh0 42) \<and>
   parentError (allMeshlets (bottomState env0 mesh0) ! 0) = Infinity \<and>
   parentError (projr (createNaniteMeshlets env0 7 mesh0 42) ! 0) = Fin (1 / 2) \<and>
   parentBounds (projr (createNaniteMeshlets env0 7 mesh0 42) ! 0) =
     Some \<lparr> center = (0, 0, 0), radius = 1 \<rparr> \<and>
   maxSiblingsError (projr (createNaniteMeshlets env0 7 mesh0 42) ! 0) = Fin 0"
proof -
  let ?st = "bottomState env0 mesh0"
  have ns: "\<not> simplificationUnsuccessful env0 ?st [0, 1, 2, 3]" by code_simp
  have v: "\<forall>c\<in>set [0, 1, 2, 3]. c < length (allMeshlets ?st)" by code_simp
  obtain st where st: "construction env0 7 mesh0 42 = Inr (3, [7], st)"
    by (rule run0)
  then have r: "createNaniteMeshlets env0 7 mesh0 42 = Inr (allMeshlets st)"
    by (simp add: createNaniteMeshlets_def)
  have m: "map Some [0, 1, 2, 3] \<in> set (partitioned env0 ?st (bottomMeshlets env0 mesh0))"
    unfolding level0(2) by simp
  have l: "(1::nat) < MAX_LODS + 1" "2 \<le> length (bottomMeshlets env0 mesh0)" by code_simp+
  have e: "add_fin (error (simplifiedMesh env0 ?st [0, 1, 2, 3])
        * errorScale (simplifiedMesh env0 ?st [0, 1, 2, 3]))
      (Math_max (map (\<lambda>c. maxSiblingsError (allMeshlets ?st ! c)) [0, 1, 2, 3])) = Fin (1 / 2)"
    "calculateBounds env0 (megaMeshlet ?st [0, 1, 2, 3]) = \<lparr> center = (0, 0, 0), radius = 1 \<rparr>"
    "maxSiblingsError (allMeshlets ?st ! 0) = Fin 0"
    by code_simp+
  note t = parent_data_of_surviving_group [OF ns, where l = 1 and n = 2 and newly = "[]"]
  from t v obtain st1 newly1 where
    "processGroup env0 1 2 (map Some [0, 1, 2, 3]) (?st, []) = Inr (st1, newly1)"
    by blast
  then have 1: "\<not> isl (processGroup env0 1 2 [Some 0, Some 1, Some 2, Some 3] (?st, []))"
    by simp
  from t level0(3) level0(1) l m st
  have "\<forall>c\<in>set [0, 1, 2, 3].
      parentBounds (allMeshlets ?st ! c) = None \<and>
      parentError (allMeshlets ?st ! c) = Infinity \<and>
      parentError (allMeshlets st ! c) =
        add_fin (error (simplifiedMesh env0 ?st [0, 1, 2, 3])
            * errorScale (simplifiedMesh env0 ?st [0, 1, 2, 3]))
          (Math_max (map (\<lambda>c. maxSiblingsError (allMeshlets ?st ! c)) [0, 1, 2, 3])) \<and>
      parentBounds (allMeshlets st ! c) = Some (calculateBounds env0 (megaMeshlet ?st [0, 1, 2, 3])) \<and>
      maxSiblingsError (allMeshlets st ! c) = maxSiblingsError (allMeshlets ?st ! c) \<and>
      sharedSiblingsBounds (allMeshlets st ! c) = sharedSiblingsBounds (allMeshlets ?st ! c)"
    by blast
  moreover have "(0::nat) \<in> set [0, 1, 2, 3]" by simp
  ultimately have 2: "parentError (allMeshlets ?st ! 0) = Infinity"
    and 3: "parentError (allMeshlets st ! 0) = Fin (1 / 2)"
    and 4: "parentBounds (allMeshlets st ! 0) = Some \<lparr> center = (0, 0, 0), radius = 1 \<rparr>"
    and "maxSiblingsError (allMeshlets st ! 0) = maxSiblingsError (allMeshlets ?st ! 0)"
    unfolding e(1,2) by blast+
  then have 5: "maxSiblingsError (allMeshlets st ! 0) = Fin 0" by (simp only: e(3))
  have "projr (createNaniteMeshlets env0 7 mesh0 42) = allMeshlets st" using r by simp
  with ns level0(3) 1 r 2 3 4 5 show ?thesis by (simp only: sum.disc simp_thms)
qed

text \<open>
  Claim C5, as stated, fails in one point: the error does not report the triangle count.
  Two meshes with different triangle counts and the same vertex count fail with the same
  error.
\<close>

theorem error_without_triangle_count_counterexample:
  "createNaniteMeshlets env1 9 mesh1 0 = Inl (SimplificationError 0 9) \<and>
   createNaniteMeshlets env1 9 mesh2 0 = Inl (SimplificationError 0 9) \<and>
   getTriangleCount mesh1 = 2 \<and> getTriangleCount mesh2 = 3"
  by code_simp

text \<open>
  Claim C5, amended. If level 1 is entered (there are at least two bottom meshlets) and
  every group of level 1 stalls, \<open>createNaniteMeshlets\<close> raises \<open>SimplificationError\<close>. The
  error carries the level the mesh could not be simplified beyond (\<open>lodLevel - 1 = 0\<close>) and
  the vertex count of the mesh, and nothing else.
\<close>

theorem level_one_failure_raises:
  assumes "2 \<le> length (bottomMeshlets env idx)"
    and "\<forall>g\<in>set (partitioned env (bottomState env idx) (bottomMeshlets env idx)).
           \<exists>cs. g = map Some cs \<and> simplificationUnsuccessful env (bottomState env idx) cs"
  shows "createNaniteMeshlets env vertexCount idx nextMeshletIdBefore =
           Inl (SimplificationError 0 vertexCount) \<and>
         err_lodLevel (SimplificationError 0 vertexCount) = 0 \<and>
         err_vertexCount (SimplificationError 0 vertexCount) = vertexCount"
proof -
  let ?st = "bottomState env idx" and ?cur = "bottomMeshlets env idx"
  from processGroups_all_stall [OF assms(2)] obtain w where
    "processGroups env 1 (length (partitioned env ?st ?cur)) (partitioned env ?st ?cur) (?st, [])
       = Inr (?st\<lparr> warnings := w \<rparr>, [])"
    by blast
  then have "lodLoop env vertexCount 1 ?cur ?st = Inl (SimplificationError 0 vertexCount)"
    using assms(1) by (subst lodLoop.simps) (simp add: MAX_LODS_def)
  then show ?thesis by (simp add: createNaniteMeshlets_def construction_eq)
qed

theorem level_one_failure_raises_witness:
  "2 \<le> length (bottomMeshlets env1 mesh1) \<and>
   partitioned env1 (bottomState env1 mesh1) (bottomMeshlets env1 mesh1) = [[Some 0, Some 1]] \<and>
   simplificationUnsuccessful env1 (bottomState env1 mesh1) [0, 1] \<and>
   createNaniteMeshlets env1 9 mesh1 0 = Inl (SimplificationError 0 9)"
proof -
  have 1: "2 \<le> length (bottomMeshlets env1 mesh1)" by code_simp
  have 2: "partitioned env1 (bottomState env1 mesh1) (bottomMeshlets env1 mesh1)
      = [[Some 0, Some 1]]"
    by code_simp
  have 3: "simplificationUnsuccessful env1 (bottomState env1 mesh1) [0, 1]" by code_simp
  from 3 have "\<exists>cs. [Some 0, Some 1] = map Some cs \<and>
      simplificationUnsuccessful env1 (bottomState env1 mesh1) cs"
    by (intro exI [of _ "[0, 1]"]) simp
  then have "\<forall>g\<in>set (partitioned env1 (bottomState env1 mesh1) (bottomMeshlets env1 mesh1)).
      \<exists>cs. g = map Some cs \<and> simplificationUnsuccessful env1 (bottomState env1 mesh1) cs"
    unfolding 2 by simp
  from level_one_failure_raises [OF 1 this, of 9 0] 1 2 3 show ?thesis by simp
qed

text \<open>
  Claim C6. For every list of boundary-edge lists, hashed edge lookup and pairwise edge
  comparison give the same adjacency: the same neighbours with the same weights, in the
  same order. The strategy selected by the flag \<open>useMapToFindAdjacentEdges\<close> therefore does
  not change what \<open>createNaniteMeshlets\<close> returns.
\<close>

theorem adjacency_strategies_agree:
  "findAdjacentMeshlets_Map meshletBoundaryEdges = findAdjacentMeshlets_Iter meshletBoundaryEdges \<and>
   findAdjacentMeshletsBy True = findAdjacentMeshletsBy False \<and>
   createNaniteMeshlets (env\<lparr> findAdjacentMeshlets := findAdjacentMeshletsBy True \<rparr>) vc idx g =
     createNaniteMeshlets (env\<lparr> findAdjacentMeshlets := findAdjacentMeshletsBy False \<rparr>) vc idx g"
proof -
  have "findAdjacentMeshletsBy True = findAdjacentMeshletsBy False"
    by (rule ext) (simp add: findAdjacentMeshletsBy_def findAdjacentMeshlets_Map_eq_Iter)
  then show ?thesis by (simp add: findAdjacentMeshlets_Map_eq_Iter)
qed

theorem adjacency_strategies_agree_witness:
  "findAdjacentMeshlets_Iter
     [[(0, 1), (1, 2), (2, 3), (3, 4)], [(1, 0), (2, 1), (3, 2), (9, 8)], [(7, 6)]]
     = [[(1, 3)], [(0, 3)], []] \<and>
   findAdjacentMeshlets_Map
     [[(0, 1), (1, 2), (2, 3), (3, 4)], [(1, 0), (2, 1), (3, 2), (9, 8)], [(7, 6)]]
     = [[(1, 3)], [(0, 3)], []]"
proof -
  have "findAdjacentMeshlets_Iter
     [[(0, 1), (1, 2), (2, 3), (3, 4)], [(1, 0), (2, 1), (3, 2), (9, 8)], [(7, 6)]]
     = [[(1, 3)], [(0, 3)], []]"
    by code_simp
  with adjacency_strategies_agree
    [of "[[(0, 1), (1, 2), (2, 3), (3, 4)], [(1, 0), (2, 1), (3, 2), (9, 8)], [(7, 6)]]"]
  show ?thesis by simp
qed

text \<open>
  Claim C7. With occlusion culling enabled, a meshlet whose bounding sphere has its
  view-space centre at distance \<open>|center.z| < radius + near\<close> passes the occlusion test,
  whatever the depth pyramid holds.
\<close>

theorem near_plane_sphere_passes_occlusion_culling:
  assumes "useOcclusionCulling unif"
    and "viewSpaceCenter unif modelMat meshlet = (centerX, centerY, centerZ, centerW)"
    and "ownBoundingSphere meshlet = (sx, sy, sz, r)"
    and "\<bar>centerZ\<bar> < r + CAMERA_CFG_near"
  shows "isPassingOcclusionCulling unif depthPyramidTexture modelMat meshlet"
  using assms by (simp add: isPassingOcclusionCulling_def split: prod.splits)

theorem near_plane_sphere_passes_occlusion_culling_witness:
  "useOcclusionCulling unif0 \<and>
   viewSpaceCenter unif0 identityMat meshletNear = (0, 0, - 1 / 2, 1) \<and>
   isPassingOcclusionCulling unif0 pyramid0 identityMat meshletNear"
proof -
  have 1: "useOcclusionCulling unif0" by (simp add: unif0_def)
  have 2: "viewSpaceCenter unif0 identityMat meshletNear = (0, 0, - 1 / 2, 1)"
    by (simp add: viewSpaceCenter_def unif0_def identityMat_def meshletNear_def mat_vec_def
        mat_mat_def vec4_add_def vec4_scale_def)
  have 3: "ownBoundingSphere meshletNear = (0, 0, - 1 / 2, 1)" by (simp add: meshletNear_def)
  have 4: "\<bar>- 1 / 2 :: real\<bar> < 1 + CAMERA_CFG_near" by (simp add: CAMERA_CFG_near_def)
  from near_plane_sphere_passes_occlusion_culling [OF 1 2 3 4] 1 2 show ?thesis by simp
qed

text \<open>
  Claim C8. The size of the drawn-meshlets buffer is the two headers (each the larger of
  the minimal buffer size and four 32-bit words, whatever the meshlets and the instance
  count) plus 8 bytes for each of \<open>leafMeshletCount * instanceCount\<close> entries, where
  \<open>leafMeshletCount\<close> counts the meshlets of LOD level 0. The buffer record has no operation
  that changes its size.
\<close>

theorem drawn_meshlets_buffer_size:
  "size' (createDrawnMeshletsBuffer W name allWIPMeshlets instanceCount) =
     BYTES_DRAWN_MESHLETS_PARAMS W + BYTES_DRAWN_MESHLETS_SW_PARAMS W
     + card {i. i < length allWIPMeshlets \<and> lodLevel (allWIPMeshlets ! i) = 0}
       * instanceCount * 8 \<and>
   BYTES_DRAWN_MESHLETS_PARAMS W = max W 16 \<and>
   BYTES_DRAWN_MESHLETS_SW_PARAMS W = max W 16 \<and>
   (size' (createDrawnMeshletsBuffer W name allWIPMeshlets instanceCount)
      - (BYTES_DRAWN_MESHLETS_PARAMS W + BYTES_DRAWN_MESHLETS_SW_PARAMS W)) div BYTES_UVEC2 =
     card {i. i < length allWIPMeshlets \<and> lodLevel (allWIPMeshlets ! i) = 0} * instanceCount"
proof -
  have "length (filter (\<lambda>m. lodLevel m = BOTTOM_LEVEL_NODE) allWIPMeshlets) =
      card {i. i < length allWIPMeshlets \<and> lodLevel (allWIPMeshlets ! i) = 0}"
    by (simp add: length_filter_conv_card BOTTOM_LEVEL_NODE_def)
  then show ?thesis
    by (simp add: createDrawnMeshletsBuffer_def Let_def BYTES_UVEC2_def BYTES_U32_def
        BYTES_DRAWN_MESHLETS_PARAMS_def BYTES_DRAWN_MESHLETS_SW_PARAMS_def)
qed

text \<open>
  Claim C9. In a list of length \<open>L\<close> (below \<open>2^32\<close>, the range of \<open>arrayLength\<close>), the
  hardware entry \<open>i\<close> is stored in slot \<open>i\<close> and the software entry \<open>j\<close> in slot
  \<open>L - 1 - j\<close>, for every index inside the list; the load helper returns what the store helper
  wrote at the same index. When \<open>hardwareCount + softwareCount \<le> L\<close>, the slots
  \<open>0 ..< hardwareCount\<close> of the hardware entries and the slots \<open>L - softwareCount ..< L\<close> of
  the software entries are disjoint, so a store to one list never changes what a load from
  the other returns.
\<close>

theorem drawn_meshlets_list_round_trip:
  assumes "length lst < 2 ^ 32"
  shows "(\<forall>i t m. unat i < length lst \<longrightarrow>
            storeMeshletHardwareDraw lst i t m = lst[unat i := (t, m)] \<and>
            getMeshletHardwareDraw (storeMeshletHardwareDraw lst i t m) i = (t, m)) \<and>
         (\<forall>j t m. unat j < length lst \<longrightarrow>
            storeMeshletSoftwareDraw lst j t m = lst[length lst - 1 - unat j := (t, m)] \<and>
            getMeshletSoftwareDraw (storeMeshletSoftwareDraw lst j t m) j = (t, m)) \<and>
         (\<forall>hardwareCount softwareCount i j t m t' m'.
            hardwareCount + softwareCount \<le> length lst \<longrightarrow>
            unat i < hardwareCount \<longrightarrow> unat j < softwareCount \<longrightarrow>
              unat i \<noteq> unat (softwareSlot lst j) \<and>
              unat i \<in> {0 ..< hardwareCount} \<and>
              unat (softwareSlot lst j) \<in> {length lst - softwareCount ..< length lst} \<and>
              getMeshletHardwareDraw
                (storeMeshletSoftwareDraw (storeMeshletHardwareDraw lst i t m) j t' m') i = (t, m) \<and>
              getMeshletSoftwareDraw
                (storeMeshletHardwareDraw (storeMeshletSoftwareDraw lst j t' m') i t m) j = (t', m'))"
proof (intro conjI allI impI)
  fix i t m :: u32 assume "unat i < length lst"
  then show "storeMeshletHardwareDraw lst i t m = lst[unat i := (t, m)]"
    and "getMeshletHardwareDraw (storeMeshletHardwareDraw lst i t m) i = (t, m)"
    by (simp_all add: storeMeshletHardwareDraw_def getMeshletHardwareDraw_def arrayStore_def
        arrayLoad_def)
next
  fix j t m :: u32 assume j: "unat j < length lst"
  note s = unat_softwareSlot [OF assms j]
  have s2: "unat (softwareSlot lst j) < length lst" using s j by simp
  from s s2 show "storeMeshletSoftwareDraw lst j t m = lst[length lst - 1 - unat j := (t, m)]"
    by (simp add: storeMeshletSoftwareDraw_def arrayStore_def)
  from s2 show "getMeshletSoftwareDraw (storeMeshletSoftwareDraw lst j t m) j = (t, m)"
    by (simp add: storeMeshletSoftwareDraw_def getMeshletSoftwareDraw_def arrayStore_def
        arrayLoad_def)
next
  fix hardwareCount softwareCount :: nat and i j t m t' m' :: u32
  assume c: "hardwareCount + softwareCount \<le> length lst"
    "unat i < hardwareCount" "unat j < softwareCount"
  then have i: "unat i < length lst" and j: "unat j < length lst" by simp_all
  note s = unat_softwareSlot [OF assms j]
  show ne: "unat i \<noteq> unat (softwareSlot lst j)" using c s by simp
  show "unat i \<in> {0 ..< hardwareCount}" using c by simp
  show "unat (softwareSlot lst j) \<in> {length lst - softwareCount ..< length lst}"
    using c s by auto
  have s2: "unat (softwareSlot lst j) < length lst" using s j by simp
  show "getMeshletHardwareDraw
      (storeMeshletSoftwareDraw (storeMeshletHardwareDraw lst i t m) j t' m') i = (t, m)"
    using i s2 ne
    by (simp add: storeMeshletSoftwareDraw_def storeMeshletHardwareDraw_def
        getMeshletHardwareDraw_def arrayStore_def arrayLoad_def softwareSlot_def
        arrayLength_def)
  show "getMeshletSoftwareDraw
      (storeMeshletHardwareDraw (storeMeshletSoftwareDraw lst j t' m') i t m) j = (t', m')"
    using i s2 ne
    by (simp add: storeMeshletSoftwareDraw_def storeMeshletHardwareDraw_def
        getMeshletSoftwareDraw_def arrayStore_def arrayLoad_def softwareSlot_def
        arrayLength_def)
qed

theorem drawn_meshlets_list_round_trip_witness:
  "storeMeshletHardwareDraw [(0, 0), (0, 0), (0, 0), (0, 0)] 1 7 9
     = [(0, 0), (7, 9), (0, 0), (0, 0)] \<and>
   getMeshletHardwareDraw (storeMeshletHardwareDraw [(0, 0), (0, 0), (0, 0), (0, 0)] 1 7 9) 1
     = (7, 9) \<and>
   storeMeshletSoftwareDraw [(0, 0), (0, 0), (0, 0), (0, 0)] 1 5 6
     = [(0, 0), (0, 0), (5, 6), (0, 0)] \<and>
   getMeshletSoftwareDraw (storeMeshletSoftwareDraw [(0, 0), (0, 0), (0, 0), (0, 0)] 1 5 6) 1
     = (5, 6) \<and>
   getMeshletHardwareDraw
     (storeMeshletSoftwareDraw (storeMeshletHardwareDraw [(0, 0), (0, 0), (0, 0), (0, 0)] 1 7 9)
        1 5 6) 1 = (7, 9)"
proof -
  let ?lst = "[(0, 0), (0, 0), (0, 0), (0, 0)] :: vec2u list"
  have L: "length ?lst < 2 ^ 32" by simp
  note r = drawn_meshlets_list_round_trip [OF L]
  have i: "unat (1 :: u32) < length ?lst" by simp
  have c: "(2::nat) + 2 \<le> length ?lst" "unat (1 :: u32) < 2" by simp_all
  from r i have "storeMeshletHardwareDraw ?lst 1 7 9 = ?lst[unat (1::u32) := (7, 9)]"
    "getMeshletHardwareDraw (storeMeshletHardwareDraw ?lst 1 7 9) 1 = (7, 9)"
    "storeMeshletSoftwareDraw ?lst 1 5 6 = ?lst[length ?lst - 1 - unat (1::u32) := (5, 6)]"
    "getMeshletSoftwareDraw (storeMeshletSoftwareDraw ?lst 1 5 6) 1 = (5, 6)"
    by blast+
  moreover from r c have "getMeshletHardwareDraw
     (storeMeshletSoftwareDraw (storeMeshletHardwareDraw ?lst 1 7 9) 1 5 6) 1 = (7, 9)"
    by blast
  ultimately show ?thesis by simp
qed

text \<open>
  Claim C10. A call of \<open>createNaniteMeshlets\<close> that returns leaves the counter at the
  number \<open>N\<close> of meshlets it created; the meshlets carry the ids \<open>0, 1, ..., N - 1\<close> in the
  order of their creation, which are pairwise distinct. The value the counter had before
  the call does not matter: a second call, started with the counter the first call left,
  returns meshlets with the same ids again.
\<close>

theorem meshlet_ids_count_from_zero:
  assumes "construction env vc idx nextMeshletIdBefore = Inr (l, cur, st)"
  shows "createNaniteMeshlets env vc idx nextMeshletIdBefore = Inr (allMeshlets st) \<and>
         map id' (allMeshlets st) = [0 ..< length (allMeshlets st)] \<and>
         distinct (map id' (allMeshlets st)) \<and>
         NEXT_MESHLET_ID st = length (allMeshlets st) \<and>
         createNaniteMeshlets env vc idx (NEXT_MESHLET_ID st) = Inr (allMeshlets st)"
proof -
  have ids: "ids_ok st" using assms by (rule construction_ids_ok)
  have "construction env vc idx (NEXT_MESHLET_ID st) = construction env vc idx nextMeshletIdBefore"
    by (simp add: construction_eq)
  with assms have "createNaniteMeshlets env vc idx (NEXT_MESHLET_ID st) = Inr (allMeshlets st)"
    by (simp add: createNaniteMeshlets_def)
  moreover have "distinct (map id' (allMeshlets st))"
    using ids by (simp add: ids_ok_def)
  ultimately show ?thesis using ids assms by (simp add: ids_ok_def createNaniteMeshlets_def)
qed

theorem meshlet_ids_count_from_zero_witness:
  "map id' (projr (createNaniteMeshlets env0 7 mesh0 42)) = [0, 1, 2, 3, 4, 5, 6, 7] \<and>
   createNaniteMeshlets env0 7 mesh0 8 = createNaniteMeshlets env0 7 mesh0 42 \<and>
   \<not> isl (createNaniteMeshlets env0 7 mesh0 42)"
proof -
  obtain st where st: "construction env0 7 mesh0 42 = Inr (3, [7], st)"
    "length (allMeshlets st) = 8"
    by (rule run0)
  have u: "[0 ..< 8] = [0, 1, 2, 3, 4, 5, 6, 7 :: nat]" by (simp add: upt_conv_Cons)
  note t = meshlet_ids_count_from_zero [OF st(1)]
  from t st(2) have n: "NEXT_MESHLET_ID st = 8" by simp
  from t have "createNaniteMeshlets env0 7 mesh0 (NEXT_MESHLET_ID st) = Inr (allMeshlets st)"
    by blast
  then have "createNaniteMeshlets env0 7 mesh0 8 = Inr (allMeshlets st)"
    unfolding n .
  with t st(2) u show ?thesis by simp
qed

end
